theory Spec2Isabelle
  imports Complex_Main
begin


section \<open>Errors raised by the Python code and by the tensor framework\<close>

text \<open>
  Tensors hold real numbers here: the development reasons about the formulas the code
  writes down, in exact arithmetic, not about their floating-point rounding.
\<close>

datatype error = UnboundLocalError | ValueError | IndexError | RuntimeError | ZeroDivisionError

section \<open>layers/loss.py: FocalLoss\<close>

text \<open>The framework's elementwise \<open>sigmoid\<close>.\<close>

definition sigmoid :: "real \<Rightarrow> real" where
  "sigmoid x = 1 / (1 + exp (- x))"

text \<open>
  One element of \<open>F.binary_cross_entropy_with_logits\<close>, as the framework documents it:
  \<open>- (t * log (sigmoid x) + (1 - t) * log (1 - sigmoid x))\<close>.
\<close>

definition bce_elem :: "real \<Rightarrow> real \<Rightarrow> real" where
  "bce_elem x t = - (t * ln (sigmoid x) + (1 - t) * ln (1 - sigmoid x))"

text \<open>
  \<open>F.binary_cross_entropy_with_logits input target reduction\<close> on tensors given by the list
  of their elements. The framework rejects an unknown reduction and a target whose size
  differs from the input's; \<open>'none'\<close> keeps one value per element, \<open>'mean'\<close> and \<open>'sum'\<close>
  return a single value (a one-element list here).
\<close>

definition mean :: "real list \<Rightarrow> real" where
  "mean xs = sum_list xs / real (length xs)"

definition binary_cross_entropy_with_logits ::
  "real list \<Rightarrow> real list \<Rightarrow> string \<Rightarrow> error + real list" where
  "binary_cross_entropy_with_logits input target reduction =
     (if reduction \<noteq> ''none'' \<and> reduction \<noteq> ''mean'' \<and> reduction \<noteq> ''sum'' then Inl ValueError
      else if length target \<noteq> length input then Inl ValueError
      else let l = map2 bce_elem input target in
        if reduction = ''none'' then Inr l
        else if reduction = ''mean'' then Inr [mean l]
        else Inr [sum_list l])"

text \<open>
  Elementwise product with broadcasting of a single value, as in
  \<open>alpha * (1. - pt) ** self.gamma * ce\<close> when \<open>ce\<close> is a reduced value.
\<close>

definition mul_bcast :: "real list \<Rightarrow> real list \<Rightarrow> real list" where
  "mul_bcast xs ys = (if length ys = 1 then map (\<lambda>x. x * hd ys) xs else map2 (*) xs ys)"

record FocalLoss =
  reduction :: string
  alpha :: real
  gamma :: nat

text \<open>\<open>FocalLoss.__init__\<close> with its defaults \<open>alpha=0.25, gamma=2, reduction='sum'\<close>.\<close>

definition FocalLoss_init :: "real \<Rightarrow> nat \<Rightarrow> string \<Rightarrow> FocalLoss" where
  "FocalLoss_init a g r = \<lparr>reduction = r, alpha = a, gamma = g\<rparr>"

definition FocalLoss_default :: FocalLoss where
  "FocalLoss_default = FocalLoss_init (1 / 4) 2 ''sum''"

text \<open>
  \<open>FocalLoss.forward\<close>. The value of an empty \<open>loss.mean()\<close> is not a number in the
  framework; no statement below is about an empty tensor.
\<close>

definition FocalLoss_forward :: "FocalLoss \<Rightarrow> real list \<Rightarrow> real list \<Rightarrow> error + real" where
  "FocalLoss_forward self pred_logits targets =
     (let preds = map sigmoid pred_logits in
      case binary_cross_entropy_with_logits pred_logits targets (reduction self) of
        Inl e \<Rightarrow> Inl e
      | Inr ce \<Rightarrow>
          let alpha_t = map (\<lambda>t. t * alpha self + (1 - t) * (1 - alpha self)) targets;
              pt = map2 (\<lambda>t p. if t = 1 then p else 1 - p) targets preds;
              loss = mul_bcast (map2 (\<lambda>a p. a * (1 - p) ^ gamma self) alpha_t pt) ce
          in Inr (mean loss))"

text \<open>
  The focal loss of the cited paper for one element, \<open>alpha_t * (1 - p_t)^gamma * ce_t\<close>,
  and its mean over all elements: the reading of claim C1.
\<close>

definition paper_focal_elem :: "real \<Rightarrow> nat \<Rightarrow> real \<Rightarrow> real \<Rightarrow> real" where
  "paper_focal_elem a g x t =
     (if t = 1 then a else 1 - a) * (1 - (if t = 1 then sigmoid x else 1 - sigmoid x)) ^ g
       * bce_elem x t"

definition paper_focal_mean :: "real \<Rightarrow> nat \<Rightarrow> real list \<Rightarrow> real list \<Rightarrow> real" where
  "paper_focal_mean a g xs ts = mean (map2 (paper_focal_elem a g) xs ts)"

text \<open>The weight \<open>alpha_t * (1 - p_t)^gamma\<close> that \<open>FocalLoss.forward\<close> gives an element.\<close>

definition focal_weight :: "real \<Rightarrow> nat \<Rightarrow> real \<Rightarrow> real \<Rightarrow> real" where
  "focal_weight a g x t =
     (t * a + (1 - t) * (1 - a)) * (1 - (if t = 1 then sigmoid x else 1 - sigmoid x)) ^ g"

section \<open>Tensors of the loss module and the framework's operations on them\<close>

text \<open>
  A tensor of \<open>loss.py\<close> is a nested list of its elements, one level per dimension, all
  lists of one level having the same length: \<open>tensor2 B A t\<close> and \<open>tensor3 B A C t\<close> say
  that \<open>t\<close> has shape \<open>(B, A)\<close> and \<open>(B, A, C)\<close>. The operations below raise where the
  framework raises on tensors whose shapes do not fit. A list without elements has no
  inner dimensions of its own: it stands for the empty tensor whose inner dimensions fit.
\<close>

definition tensor2 :: "nat \<Rightarrow> nat \<Rightarrow> 'a list list \<Rightarrow> bool" where
  "tensor2 B A t \<longleftrightarrow> length t = B \<and> (\<forall>r\<in>set t. length r = A)"

definition tensor3 :: "nat \<Rightarrow> nat \<Rightarrow> nat \<Rightarrow> 'a list list list \<Rightarrow> bool" where
  "tensor3 B A C t \<longleftrightarrow> length t = B \<and> (\<forall>r\<in>set t. length r = A \<and> (\<forall>v\<in>set r. length v = C))"

text \<open>An exception ends the function: the steps after it are not run.\<close>

definition bind_err :: "error + 'a \<Rightarrow> ('a \<Rightarrow> error + 'b) \<Rightarrow> error + 'b" where
  "bind_err r f = (case r of Inl e \<Rightarrow> Inl e | Inr v \<Rightarrow> f v)"

text \<open>The results of a list of steps, or the first exception among them.\<close>

fun sequence_err :: "(error + 'a) list \<Rightarrow> error + 'a list" where
  "sequence_err [] = Inr []"
| "sequence_err (x # xs) =
     (case x of
        Inl e \<Rightarrow> Inl e
      | Inr v \<Rightarrow> (case sequence_err xs of Inl e \<Rightarrow> Inl e | Inr vs \<Rightarrow> Inr (v # vs)))"

text \<open>
  \<open>t.view(-1, n)\<close> on the elements of \<open>t\<close>: rows of \<open>n\<close> consecutive elements. The
  framework raises when the number of elements is not a multiple of \<open>n\<close>, and for
  \<open>n = 0\<close>; an empty tensor gives no row.
\<close>

definition view_rows :: "nat \<Rightarrow> 'a list \<Rightarrow> error + 'a list list" where
  "view_rows n xs =
     (if n = 0 \<or> length xs mod n \<noteq> 0 then Inl RuntimeError
      else Inr (map (\<lambda>r. take n (drop (r * n) xs)) [0..<length xs div n]))"

text \<open>
  \<open>t.view(b, -1)\<close>: \<open>b\<close> rows of equal length. The framework raises when the number of
  elements is not a multiple of \<open>b\<close>, and for \<open>b = 0\<close>, where it cannot infer the length
  of a row.
\<close>

definition view_batch :: "nat \<Rightarrow> 'a list \<Rightarrow> error + 'a list list" where
  "view_batch b xs =
     (if b = 0 \<or> length xs mod b \<noteq> 0 then Inl RuntimeError
      else Inr (map (\<lambda>r. take (length xs div b) (drop (r * (length xs div b)) xs)) [0..<b]))"

text \<open>The entries of a list at the positions where a list of booleans holds.\<close>

definition mask_select_row :: "bool list \<Rightarrow> 'a list \<Rightarrow> 'a list" where
  "mask_select_row msk xs = map snd (filter fst (zip msk xs))"

text \<open>
  The rows of a tensor at the positions where a \<open>(B, A)\<close> mask holds, in order. This is
  what indexing with the mask gives when the shapes fit; the checks are in \<open>expand_as\<close>,
  \<open>bool_index\<close> and \<open>bool_index2\<close>.
\<close>

definition mask_select :: "bool list list \<Rightarrow> 'a list list \<Rightarrow> 'a list" where
  "mask_select masks xss = concat (map2 mask_select_row masks xss)"

text \<open>
  One dimension of \<open>expand\<close> and of broadcasting: a dimension that has the size asked
  for is kept, a dimension of size \<open>1\<close> is repeated, and the framework raises for any
  other size.
\<close>

definition expand_dim :: "nat \<Rightarrow> 'a list \<Rightarrow> error + 'a list" where
  "expand_dim n xs =
     (if length xs = n then Inr xs
      else if length xs = 1 then Inr (replicate n (hd xs))
      else Inl RuntimeError)"

text \<open>The two dimensions of a mask expanded to the first two dimensions of \<open>t\<close>.\<close>

definition expand_rows :: "'a list list \<Rightarrow> 'b list list \<Rightarrow> error + 'a list list" where
  "expand_rows msk t =
     bind_err (expand_dim (length t) msk) (\<lambda>rows.
       sequence_err (map2 (\<lambda>m r. expand_dim (length r) m) rows t))"

text \<open>
  \<open>mask.unsqueeze(2).expand_as(t)\<close> for a two-dimensional mask and a \<open>(B, A, n)\<close> tensor:
  the mask is expanded to \<open>(B, A)\<close> and every entry is repeated along the last dimension
  of \<open>t\<close>.
\<close>

definition expand_mask :: "bool list list \<Rightarrow> 'a list list list \<Rightarrow> bool list list list" where
  "expand_mask msk t = map2 (\<lambda>m r. map2 (\<lambda>b v. map (\<lambda>_. b) v) m r) msk t"

definition expand_as :: "bool list list \<Rightarrow> 'a list list list \<Rightarrow> error + bool list list list" where
  "expand_as msk t = bind_err (expand_rows msk t) (\<lambda>rows. Inr (expand_mask rows t))"

text \<open>
  An operation on the elements of two tensors with broadcasting, one dimension at a time:
  equal sizes are paired, a dimension of size \<open>1\<close> is repeated, other sizes raise.
\<close>

definition broadcast2 ::
  "('a \<Rightarrow> 'b \<Rightarrow> error + 'c) \<Rightarrow> 'a list \<Rightarrow> 'b list \<Rightarrow> error + 'c list" where
  "broadcast2 f xs ys =
     (if length xs = length ys then sequence_err (map2 f xs ys)
      else if length xs = 1 then sequence_err (map (f (hd xs)) ys)
      else if length ys = 1 then sequence_err (map (\<lambda>x. f x (hd ys)) xs)
      else Inl RuntimeError)"

text \<open>\<open>(p + n).gt(0)\<close> for two-dimensional boolean tensors.\<close>

definition add_masks :: "bool list list \<Rightarrow> bool list list \<Rightarrow> error + bool list list" where
  "add_masks p n = broadcast2 (broadcast2 (\<lambda>a b. Inr (a \<or> b))) p n"

text \<open>
  \<open>t[idx]\<close> for a boolean tensor \<open>idx\<close>: the elements of \<open>t\<close> where \<open>idx\<close> holds, in order.
  The framework raises when \<open>idx\<close> has not the shape of \<open>t\<close>.
\<close>

definition bool_index :: "'a list list list \<Rightarrow> bool list list list \<Rightarrow> error + 'a list" where
  "bool_index t idx =
     (if list_all2 (list_all2 (\<lambda>i v. length i = length v)) idx t
      then Inr (concat (concat (map2 (map2 mask_select_row) idx t)))
      else Inl IndexError)"

definition bool_index2 :: "'a list list \<Rightarrow> bool list list \<Rightarrow> error + 'a list" where
  "bool_index2 t idx =
     (if list_all2 (\<lambda>i r. length i = length r) idx t
      then Inr (mask_select idx t)
      else Inl IndexError)"

section \<open>layers/loss.py: OHEM\<close>

text \<open>
  One row of \<open>F.cross_entropy\<close>: \<open>- log_softmax logits\<close> at the target class. The
  framework raises for a class index outside \<open>[0, C)\<close>, except for its default
  \<open>ignore_index = -100\<close>, which contributes \<open>0\<close>.
\<close>

definition cross_entropy_value :: "real list \<Rightarrow> int \<Rightarrow> real" where
  "cross_entropy_value logits t = ln (\<Sum>x\<leftarrow>logits. exp x) - logits ! nat t"

definition cross_entropy_elem :: "real list \<Rightarrow> int \<Rightarrow> error + real" where
  "cross_entropy_elem logits t =
     (if t = - 100 then Inr 0
      else if 0 \<le> t \<and> nat t < length logits then Inr (cross_entropy_value logits t)
      else Inl IndexError)"

text \<open>\<open>F.cross_entropy input target reduce=False\<close>: one loss per row.\<close>

definition cross_entropy_none :: "real list list \<Rightarrow> int list \<Rightarrow> error + real list" where
  "cross_entropy_none input target =
     (if length input \<noteq> length target then Inl ValueError
      else sequence_err (map2 cross_entropy_elem input target))"

text \<open>\<open>F.cross_entropy input target reduction='sum'\<close>.\<close>

definition cross_entropy_sum :: "real list list \<Rightarrow> int list \<Rightarrow> error + real" where
  "cross_entropy_sum input target =
     (case cross_entropy_none input target of Inl e \<Rightarrow> Inl e | Inr l \<Rightarrow> Inr (sum_list l))"

text \<open>
  \<open>values.sort(1, descending=True)\<close> returns, besides the sorted values, the indices that
  sort each row. The framework's default sort is not stable, so the order of equal values
  is not fixed: the index function is a parameter \<open>srt\<close> of the model, and
  \<open>is_argsort_desc\<close> says what any result of the framework satisfies.
  \<open>argsort_desc\<close> is one such function (the stable one).
\<close>

definition is_argsort_desc :: "real list \<Rightarrow> nat list \<Rightarrow> bool" where
  "is_argsort_desc xs idx \<longleftrightarrow>
     length idx = length xs \<and> distinct idx \<and> set idx = {0..<length xs} \<and>
     sorted (map (\<lambda>i. - (xs ! i)) idx)"

definition argsort_desc :: "real list \<Rightarrow> nat list" where
  "argsort_desc xs = sort_key (\<lambda>i. - (xs ! i)) [0..<length xs]"

text \<open>
  \<open>loss_idx.sort(1)\<close>: the indices that sort a row of distinct integers in ascending
  order (here there are no equal values, so the result does not depend on stability).
\<close>

definition argsort_asc :: "nat list \<Rightarrow> nat list" where
  "argsort_asc xs = sort_key (\<lambda>i. xs ! i) [0..<length xs]"

record OHEM =
  ohem_neg_pos_ratio :: int
  ohem_num_classes :: nat

definition OHEM_init :: "int \<Rightarrow> nat \<Rightarrow> OHEM" where
  "OHEM_init neg_pos_ratio num_classes =
     \<lparr>ohem_neg_pos_ratio = neg_pos_ratio, ohem_num_classes = num_classes\<rparr>"

text \<open>One row of \<open>pos_boxes_mask = targets == 1\<close>.\<close>

definition pos_boxes_mask_row :: "int list \<Rightarrow> bool list" where
  "pos_boxes_mask_row targets = map (\<lambda>t. t = 1) targets"

text \<open>
  \<open>loss_c[pos_boxes_mask.view(-1, 1)] = 0\<close> on the losses of all anchors of the batch:
  the mask must have as many entries as there are losses.
\<close>

definition masked_fill_zero :: "real list \<Rightarrow> bool list \<Rightarrow> error + real list" where
  "masked_fill_zero loss_c msk =
     (if length msk \<noteq> length loss_c then Inl IndexError
      else Inr (map2 (\<lambda>l p. if p then 0 else l) loss_c msk))"

text \<open>One row of \<open>num_pos = pos_boxes_mask.long().sum(1, keepdim=True)\<close>.\<close>

definition num_pos_row :: "int list \<Rightarrow> int" where
  "num_pos_row targets = int (length (filter id (pos_boxes_mask_row targets)))"

text \<open>
  One row of \<open>torch.clamp(self.neg_pos_ratio * num_pos, max=pos_boxes_mask.size(1) - 1)\<close>.
\<close>

definition num_neg_row :: "int \<Rightarrow> int list \<Rightarrow> int" where
  "num_neg_row ratio targets =
     min (ratio * num_pos_row targets) (int (length (pos_boxes_mask_row targets)) - 1)"

text \<open>
  One row of lines 54 to 58 when \<open>targets\<close> has a row for every row of \<open>loss_c\<close>: the
  two sorts of the row and the comparison of the ranks with the row's \<open>num_neg\<close>.
\<close>

definition neg_boxes_mask_row ::
  "(real list \<Rightarrow> nat list) \<Rightarrow> int \<Rightarrow> real list \<Rightarrow> int list \<Rightarrow> bool list" where
  "neg_boxes_mask_row srt ratio loss_c targets =
     (let loss_idx = srt loss_c;
          idx_rank = argsort_asc loss_idx
      in map (\<lambda>r. int r < num_neg_row ratio targets) idx_rank)"

text \<open>
  Lines 54 to 58 after the first sort: \<open>idx_rank\<close> and its comparison with \<open>num_neg\<close>.
  \<open>num_neg\<close> has one entry for every row of \<open>targets\<close>; \<open>expand_as\<close> repeats it along
  the ranks of a row, so that every rank is compared with the entry of its row, and along
  the rows when \<open>targets\<close> has a single row.
\<close>

definition rank_mask :: "nat list list \<Rightarrow> int list \<Rightarrow> error + bool list list" where
  "rank_mask loss_idx num_neg =
     (let idx_rank = map argsort_asc loss_idx
      in bind_err (expand_dim (length idx_rank) num_neg) (\<lambda>num_neg.
           Inr (map2 (\<lambda>r k. map (\<lambda>i. int i < k) r) idx_rank num_neg)))"

text \<open>
  \<open>OHEM.forward\<close> on \<open>pred_logits\<close> of shape \<open>(B, A, C)\<close> and two-dimensional
  \<open>targets\<close>.
\<close>

definition OHEM_forward ::
  "(real list \<Rightarrow> nat list) \<Rightarrow> OHEM \<Rightarrow> real list list list \<Rightarrow> int list list \<Rightarrow> error + real" where
  "OHEM_forward srt self pred_logits targets =
     (let batch_size = length pred_logits;
          pos_boxes_mask = map pos_boxes_mask_row targets
      in
      bind_err (view_rows (ohem_num_classes self) (concat (concat pred_logits))) (\<lambda>input.
      bind_err (cross_entropy_none input (concat targets)) (\<lambda>loss_c.
      bind_err (masked_fill_zero loss_c (concat pos_boxes_mask)) (\<lambda>loss_c.
      bind_err (view_batch batch_size loss_c) (\<lambda>loss_c.
      let loss_idx = map srt loss_c;
          num_neg = map (num_neg_row (ohem_neg_pos_ratio self)) targets
      in
      bind_err (rank_mask loss_idx num_neg) (\<lambda>neg_boxes_mask.
      bind_err (expand_as pos_boxes_mask pred_logits) (\<lambda>pos_boxes_idx.
      bind_err (expand_as neg_boxes_mask pred_logits) (\<lambda>neg_boxes_idx.
      bind_err (bool_index pred_logits
                  (map2 (map2 (map2 (\<or>))) pos_boxes_idx neg_boxes_idx)) (\<lambda>selected.
      bind_err (view_rows (ohem_num_classes self) selected) (\<lambda>cls_pred.
      bind_err (bind_err (add_masks pos_boxes_mask neg_boxes_mask) (bool_index2 targets))
        (\<lambda>cls_gt.
      bind_err (cross_entropy_sum cls_pred cls_gt) (\<lambda>cls_loss.
        let N = max (real_of_int (sum_list (map num_pos_row targets))) 1
        in Inr (cls_loss / N)))))))))))))"

text \<open>
  The notions of claim C2 for one batch row with per-anchor cross-entropies \<open>ce\<close>: the row
  of \<open>loss_c\<close> (the positives set to \<open>0\<close>), and the negative anchors that contribute to
  the loss, those the mask of hard negatives selects and that are not positive.
\<close>

definition loss_c_row :: "real list \<Rightarrow> int list \<Rightarrow> real list" where
  "loss_c_row ce targets = map2 (\<lambda>l p. if p then 0 else l) ce (pos_boxes_mask_row targets)"

definition selected_mask_row :: "(real list \<Rightarrow> nat list) \<Rightarrow> int \<Rightarrow> real list \<Rightarrow> int list \<Rightarrow> bool list" where
  "selected_mask_row srt ratio ce targets =
     map2 (\<or>) (pos_boxes_mask_row targets)
       (neg_boxes_mask_row srt ratio (loss_c_row ce targets) targets)"

text \<open>The per-anchor cross-entropies of batch row \<open>b\<close>.\<close>

definition anchor_ce :: "real list list list \<Rightarrow> int list list \<Rightarrow> nat \<Rightarrow> real list" where
  "anchor_ce pred_logits targets b = map2 cross_entropy_value (pred_logits ! b) (targets ! b)"

definition contributing_negatives ::
  "(real list \<Rightarrow> nat list) \<Rightarrow> int \<Rightarrow> real list \<Rightarrow> int list \<Rightarrow> nat list" where
  "contributing_negatives srt ratio ce targets =
     filter (\<lambda>i. neg_boxes_mask_row srt ratio (loss_c_row ce targets) targets ! i
                  \<and> targets ! i \<noteq> 1)
       [0..<length targets]"

section \<open>layers/loss.py: MultiBoxLoss\<close>

text \<open>
  The configuration object. Its file is not part of the sources at hand; the fields are
  the ones the code reads, and the record can be extended by whatever else a matching
  procedure reads from it.
\<close>

record config =
  MODEL_num_classes :: nat
  MODEL_anchor_sizes :: "int list list"
  MODEL_strides :: "int list"
  TRAIN_overlap_thresholds :: "real list"
  TRAIN_cls_loss_type :: string
  TRAIN_neg_pos_ratio :: int
  TRAIN_encode_variance :: "real list"
  TRAIN_use_gpu :: bool
  TRAIN_clip_box :: bool
  DATA_image_size :: "int \<times> int"

text \<open>
  \<open>tools.box_utils.match_atss\<close> and \<open>match\<close> are not part of the sources at hand. A
  matching procedure is a parameter of the model: from the configuration, the ground
  truth of the batch, the anchors and the variance it returns the matched labels
  \<open>(B, A)\<close>, boxes \<open>(B, A, 4)\<close> and landmarks \<open>(B, A, 10)\<close>.
\<close>

type_synonym 'c matcher =
  "'c config_scheme \<Rightarrow> real list list list \<Rightarrow> real list list \<Rightarrow> real list
     \<Rightarrow> int list list \<times> real list list list \<times> real list list list"

record 'c MultiBoxLoss =
  num_classes :: nat
  thresholds :: "real list"
  cls_loss_type :: string
  neg_pos_ratio :: int
  variance :: "real list"
  use_gpu :: bool
  focal_loss :: FocalLoss
  ohem :: OHEM
  cfg :: "'c config_scheme"

definition MultiBoxLoss_init :: "'c config_scheme \<Rightarrow> 'c MultiBoxLoss" where
  "MultiBoxLoss_init c =
     \<lparr>num_classes = MODEL_num_classes c,
      thresholds = TRAIN_overlap_thresholds c,
      cls_loss_type = TRAIN_cls_loss_type c,
      neg_pos_ratio = TRAIN_neg_pos_ratio c,
      variance = TRAIN_encode_variance c,
      use_gpu = TRAIN_use_gpu c,
      focal_loss = FocalLoss_default,
      ohem = OHEM_init (TRAIN_neg_pos_ratio c) (MODEL_num_classes c),
      cfg = c\<rparr>"

text \<open>One element of \<open>F.smooth_l1_loss\<close> (with its default \<open>beta = 1\<close>) at difference \<open>d\<close>.\<close>

definition smooth_l1_elem :: "real \<Rightarrow> real" where
  "smooth_l1_elem d = (if \<bar>d\<bar> < 1 then 0.5 * d\<^sup>2 else \<bar>d\<bar> - 0.5)"

text \<open>\<open>F.smooth_l1_loss input target reduction='sum'\<close> on two \<open>(K, n)\<close> tensors.\<close>

definition smooth_l1_loss_sum :: "real list list \<Rightarrow> real list list \<Rightarrow> real" where
  "smooth_l1_loss_sum input target =
     sum_list (map2 (\<lambda>p g. smooth_l1_elem (p - g)) (concat input) (concat target))"

text \<open>
  \<open>F.one_hot\<close> without a number of classes: the framework takes one more than the largest
  value, and rejects an empty tensor and negative values.
\<close>

definition one_hot :: "int list \<Rightarrow> error + real list list" where
  "one_hot xs =
     (if xs = [] then Inl RuntimeError
      else if \<exists>x\<in>set xs. x < 0 then Inl RuntimeError
      else let n = nat (Max (set xs)) + 1
           in Inr (map (\<lambda>x. map (\<lambda>c. if int c = x then 1 else 0) [0..<n]) xs))"

text \<open>
  \<open>num_pos = mask.long().sum(1, keepdim=True); N = max(num_pos.sum().float(), 1)\<close>: the
  divisor the function computes from a mask, for the landmarks (\<open>N1\<close>) and for the
  boxes (\<open>N\<close>).
\<close>

definition count_divisor :: "bool list list \<Rightarrow> real" where
  "count_divisor msk =
     (let num_pos = map (\<lambda>m. int (length (filter id m))) msk
      in max (real_of_int (sum_list num_pos)) 1)"

text \<open>\<open>matched_labels[pos_boxes_mask] = 1\<close>: every nonzero label becomes \<open>1\<close>.\<close>

definition relabel :: "int list list \<Rightarrow> int list list" where
  "relabel matched_labels = map (map (\<lambda>l. if l \<noteq> 0 then 1 else l)) matched_labels"

text \<open>
  Lines 132 to 137 (landmarks, \<open>n = 10\<close>) and 142 to 149 (boxes, \<open>n = 4\<close>) are the same
  steps: the mask is expanded to the shape of the predictions, the predictions and the
  matched targets are indexed with it and viewed as rows of \<open>n\<close>, and the summed
  smooth-L1 loss is divided by the count of the mask.
\<close>

definition regression_loss ::
  "bool list list \<Rightarrow> real list list list \<Rightarrow> real list list list \<Rightarrow> nat \<Rightarrow> error + real" where
  "regression_loss pos_mask pred matched n =
     bind_err (expand_as pos_mask pred) (\<lambda>pos_idx.
     bind_err (bind_err (bool_index pred pos_idx) (view_rows n)) (\<lambda>pos_pred.
     bind_err (bind_err (bool_index matched pos_idx) (view_rows n)) (\<lambda>pos_gt.
       Inr (smooth_l1_loss_sum pos_pred pos_gt / count_divisor pos_mask))))"

text \<open>
  \<open>MultiBoxLoss.forward\<close>, on a machine with a GPU (the function calls \<open>.cuda()\<close>
  whatever \<open>use_gpu\<close> says). The local variable \<open>cls_loss\<close> is \<open>None\<close> until one of the
  two \<open>if\<close> statements assigns it; the final \<open>return\<close> reads it. The focal loss gets the
  logits as \<open>(B * A, num_classes)\<close> and the one-hot target as \<open>(B * A, K)\<close>; its
  cross-entropy rejects tensors of different sizes, and \<open>FocalLoss_forward\<close> takes both as
  the lists of their elements, so the sizes of the rows are compared before the call.
\<close>

definition MultiBoxLoss_forward ::
  "(real list \<Rightarrow> nat list) \<Rightarrow> 'c matcher \<Rightarrow> 'c MultiBoxLoss
     \<Rightarrow> real list list list \<times> real list list list \<times> real list list list
     \<Rightarrow> real list list \<Rightarrow> real list list list \<Rightarrow> error + real \<times> real \<times> real" where
  "MultiBoxLoss_forward srt match_atss self predictions anchor_boxes targets =
     (let (matched_labels, matched_boxes, matched_landmarks) =
            match_atss (cfg self) targets anchor_boxes (variance self);
          (pred_logits, pred_boxes, pred_landmarks) = predictions;
          pos_ldmks_mask = map (map (\<lambda>l. l > 0)) matched_labels
      in
      bind_err (regression_loss pos_ldmks_mask pred_landmarks matched_landmarks 10)
        (\<lambda>landmark_loss.
      let pos_boxes_mask = map (map (\<lambda>l. l \<noteq> 0)) matched_labels;
          matched_labels = relabel matched_labels
      in
      bind_err (regression_loss pos_boxes_mask pred_boxes matched_boxes 4) (\<lambda>box_loss.
      bind_err (if cls_loss_type self = ''OHEM''
                then bind_err (OHEM_forward srt (ohem self) pred_logits matched_labels)
                       (\<lambda>l. Inr (Some l))
                else Inr None) (\<lambda>cls_loss.
      bind_err (if cls_loss_type self = ''FocalLoss''
                then bind_err (one_hot (concat matched_labels)) (\<lambda>matched_labels_target.
                     bind_err (view_rows (num_classes self) (concat (concat pred_logits)))
                       (\<lambda>input.
                     bind_err (if list_all2 (\<lambda>p t. length p = length t) input matched_labels_target
                               then FocalLoss_forward (focal_loss self) (concat input)
                                      (concat matched_labels_target)
                               else Inl ValueError) (\<lambda>l. Inr (Some l))))
                else Inr cls_loss) (\<lambda>cls_loss.
        case cls_loss of
          None \<Rightarrow> Inl UnboundLocalError
        | Some l \<Rightarrow> Inr (l, box_loss, landmark_loss))))))"

text \<open>
  The reading of claim C4: the sums run over the anchors \<open>(b, a)\<close> of the batch whose
  matched label is positive (landmarks) or nonzero (boxes), and the divisor is the number
  of these anchors, or \<open>1\<close> when there is none.
\<close>

definition masked_smooth_l1 ::
  "(int \<Rightarrow> bool) \<Rightarrow> int list list \<Rightarrow> real list list list \<Rightarrow> real list list list \<Rightarrow> real" where
  "masked_smooth_l1 P labels pred gt =
     (\<Sum>b<length labels. \<Sum>a<length (labels ! b).
        if P (labels ! b ! a)
        then \<Sum>j<length (pred ! b ! a). smooth_l1_elem (pred ! b ! a ! j - gt ! b ! a ! j)
        else 0)
     / max (real (length (filter P (concat labels)))) 1"

text \<open>The shapes of the docstring: \<open>(B, A)\<close> labels against a \<open>(B, A, n)\<close> tensor.\<close>

definition shape3 :: "int list list \<Rightarrow> nat \<Rightarrow> 'a list list list \<Rightarrow> bool" where
  "shape3 labels n t \<longleftrightarrow>
     length t = length labels \<and>
     (\<forall>b<length labels. length (t ! b) = length (labels ! b) \<and>
        (\<forall>a<length (labels ! b). length (t ! b ! a) = n))"

section \<open>layers/anchor.py: AnchorGenerator\<close>

record AnchorGenerator =
  min_sizes :: "int list list"
  steps :: "int list"
  clip :: bool
  image_size :: "int \<times> int"
  feature_maps :: "(int \<times> int) list"
  name :: string
  ag_use_gpu :: bool

text \<open>Python's \<open>ceil(a / b)\<close> on integers.\<close>

definition py_ceil_div :: "int \<Rightarrow> int \<Rightarrow> int" where
  "py_ceil_div a b = \<lceil>real_of_int a / real_of_int b\<rceil>"

definition AnchorGenerator_init :: "'c config_scheme \<Rightarrow> error + AnchorGenerator" where
  "AnchorGenerator_init c =
     (if \<exists>step\<in>set (MODEL_strides c). step = 0 then Inl ZeroDivisionError
      else Inr
        \<lparr>min_sizes = MODEL_anchor_sizes c,
         steps = MODEL_strides c,
         clip = TRAIN_clip_box c,
         image_size = DATA_image_size c,
         feature_maps =
           map (\<lambda>step. (py_ceil_div (fst (DATA_image_size c)) step,
                         py_ceil_div (snd (DATA_image_size c)) step)) (MODEL_strides c),
         name = ''s'',
         ag_use_gpu = TRAIN_use_gpu c\<rparr>)"

text \<open>The four numbers appended for one cell \<open>(i, j)\<close> of level \<open>k\<close> and one \<open>min_size\<close>.\<close>

definition anchor_at :: "AnchorGenerator \<Rightarrow> nat \<Rightarrow> nat \<Rightarrow> nat \<Rightarrow> int \<Rightarrow> real list" where
  "anchor_at self k i j min_size =
     (let s_kx = real_of_int min_size / real_of_int (snd (image_size self));
          s_ky = real_of_int min_size / real_of_int (fst (image_size self));
          cx = (real j + 0.5) * real_of_int (steps self ! k) / real_of_int (snd (image_size self));
          cy = (real i + 0.5) * real_of_int (steps self ! k) / real_of_int (fst (image_size self))
      in [cx, cy, s_kx, s_ky])"

text \<open>The body of the loop over the feature maps, for level \<open>k\<close> with feature map \<open>f\<close>.\<close>

definition level_anchors :: "AnchorGenerator \<Rightarrow> nat \<Rightarrow> int \<times> int \<Rightarrow> real list" where
  "level_anchors self k f =
     concat (map (\<lambda>(i, j). concat (map (anchor_at self k i j) (min_sizes self ! k)))
                 (List.product [0..<nat (fst f)] [0..<nat (snd f)]))"

text \<open>The same anchors of level \<open>k\<close>, one list of four numbers per anchor.\<close>

definition level_rows :: "AnchorGenerator \<Rightarrow> nat \<Rightarrow> int \<times> int \<Rightarrow> real list list" where
  "level_rows self k f =
     concat (map (\<lambda>(i, j). map (anchor_at self k i j) (min_sizes self ! k))
                 (List.product [0..<nat (fst f)] [0..<nat (snd f)]))"

fun anchors_from :: "AnchorGenerator \<Rightarrow> nat \<Rightarrow> (int \<times> int) list \<Rightarrow> error + real list" where
  "anchors_from self k [] = Inr []"
| "anchors_from self k (f # fs) =
     (if length (min_sizes self) \<le> k then Inl IndexError
      else case anchors_from self (Suc k) fs of
             Inl e \<Rightarrow> Inl e
           | Inr rest \<Rightarrow> Inr (level_anchors self k f @ rest))"

definition clamp01 :: "real \<Rightarrow> real" where
  "clamp01 x = min (max x 0) 1"

text \<open>
  \<open>generate_anchors\<close>; \<open>torch.Tensor(anchors).view(-1, 4)\<close> makes one row of each four
  numbers, and \<open>output.cuda()\<close> leaves the numbers as they are.
\<close>

definition generate_anchors :: "AnchorGenerator \<Rightarrow> error + real list list" where
  "generate_anchors self =
     (case anchors_from self 0 (feature_maps self) of
        Inl e \<Rightarrow> Inl e
      | Inr anchors \<Rightarrow>
         (case view_rows 4 anchors of
            Inl e \<Rightarrow> Inl e
          | Inr output \<Rightarrow> Inr (if clip self then map (map clamp01) output else output)))"

text \<open>The number of anchors claim C9 gives, for the feature levels \<open>k\<close>.\<close>

definition anchor_count :: "'c config_scheme \<Rightarrow> int" where
  "anchor_count c =
     (\<Sum>k<length (MODEL_strides c).
        py_ceil_div (fst (DATA_image_size c)) (MODEL_strides c ! k)
        * py_ceil_div (snd (DATA_image_size c)) (MODEL_strides c ! k)
        * int (length (MODEL_anchor_sizes c ! k)))"

section \<open>nets/modules.py: PNet, RNet, ONet\<close>

text \<open>
  A tensor is its shape and its elements, read at an index (one number per dimension).
\<close>

record tensor =
  shape :: "nat list"
  elem :: "nat list \<Rightarrow> real"

text \<open>
  The layers the three networks are built from, with the arguments the code passes:
  \<open>Conv2d in_channels out_channels kernel_size stride\<close> (no padding),
  \<open>PReLU num_parameters\<close>, \<open>MaxPool2d kernel_size stride\<close> (\<open>ceil_mode=False\<close>),
  the module \<open>Flatten\<close> of the file (\<open>x.view(x.size(0), -1)\<close>),
  \<open>Linear in_features out_features\<close> and \<open>Dropout p\<close>.
\<close>

datatype layer =
  Conv2d nat nat nat nat
| PReLU nat
| MaxPool2d nat nat
| Flatten
| Linear nat nat
| Dropout real

text \<open>
  The shape a layer gives to its output, and \<open>None\<close> where the framework rejects the
  input: a wrong number of channels or features, or an image smaller than the kernel.
\<close>

fun out_shape :: "layer \<Rightarrow> nat list \<Rightarrow> nat list option" where
  "out_shape (Conv2d cin cout k s) [n, c, h, w] =
     (if c = cin \<and> k \<le> h \<and> k \<le> w \<and> 0 < s
      then Some [n, cout, (h - k) div s + 1, (w - k) div s + 1] else None)"
| "out_shape (PReLU c) (n # c' # rest) =
     (if c = c' \<or> c = 1 then Some (n # c' # rest) else None)"
| "out_shape (MaxPool2d k s) [n, c, h, w] =
     (if k \<le> h \<and> k \<le> w \<and> 0 < s
      then Some [n, c, (h - k) div s + 1, (w - k) div s + 1] else None)"
| "out_shape Flatten (n # rest) =
     (if n * prod_list rest = 0 then None else Some [n, prod_list rest])"
| "out_shape (Linear fin fout) [n, f] = (if f = fin then Some [n, fout] else None)"
| "out_shape (Dropout p) sh = Some sh"
| "out_shape _ _ = None"

text \<open>
  The numbers a layer computes depend on its weights, which the code loads from files
  that are not at hand (and, for \<open>Dropout\<close>, on the framework's random mask). They are
  a parameter: \<open>run name x\<close> gives the elements of the output of the layer called
  \<open>name\<close> on the input \<open>x\<close>.
\<close>

type_synonym runner = "string \<Rightarrow> tensor \<Rightarrow> nat list \<Rightarrow> real"

definition apply_layer :: "runner \<Rightarrow> string \<times> layer \<Rightarrow> tensor \<Rightarrow> error + tensor" where
  "apply_layer run l x =
     (case out_shape (snd l) (shape x) of
        None \<Rightarrow> Inl RuntimeError
      | Some sh \<Rightarrow> Inr \<lparr>shape = sh, elem = run (fst l) x\<rparr>)"

text \<open>\<open>nn.Sequential\<close>: the layers in order.\<close>

fun sequential :: "runner \<Rightarrow> (string \<times> layer) list \<Rightarrow> tensor \<Rightarrow> error + tensor" where
  "sequential run [] x = Inr x"
| "sequential run (l # ls) x =
     (case apply_layer run l x of Inl e \<Rightarrow> Inl e | Inr y \<Rightarrow> sequential run ls y)"

text \<open>\<open>softmax\<close> along dimension \<open>d\<close>.\<close>

definition softmax :: "nat \<Rightarrow> tensor \<Rightarrow> error + tensor" where
  "softmax d x =
     (if length (shape x) \<le> d then Inl IndexError
      else Inr \<lparr>shape = shape x,
                elem = (\<lambda>idx. exp (elem x idx)
                          / (\<Sum>c\<leftarrow>[0..<shape x ! d]. exp (elem x (idx[d := c]))))\<rparr>)"

record PNet =
  p_is_train :: bool
  p_features :: "(string \<times> layer) list"
  p_conv4_1 :: "string \<times> layer"
  p_conv4_2 :: "string \<times> layer"

definition PNet_init :: "bool \<Rightarrow> PNet" where
  "PNet_init is_train =
     \<lparr>p_is_train = is_train,
      p_features =
        [(''conv1'', Conv2d 3 10 3 1), (''prelu1'', PReLU 10), (''pool1'', MaxPool2d 2 2),
         (''conv2'', Conv2d 10 16 3 1), (''prelu2'', PReLU 16),
         (''conv3'', Conv2d 16 32 3 1), (''prelu3'', PReLU 32)],
      p_conv4_1 = (''conv4_1'', Conv2d 32 2 1 1),
      p_conv4_2 = (''conv4_2'', Conv2d 32 4 1 1)\<rparr>"

text \<open>The score logits of \<open>PNet.forward\<close>, before the optional softmax.\<close>

definition PNet_logits :: "runner \<Rightarrow> PNet \<Rightarrow> tensor \<Rightarrow> error + tensor" where
  "PNet_logits run self x =
     (case sequential run (p_features self) x of
        Inl e \<Rightarrow> Inl e
      | Inr x \<Rightarrow> apply_layer run (p_conv4_1 self) x)"

definition PNet_forward :: "runner \<Rightarrow> PNet \<Rightarrow> tensor \<Rightarrow> error + tensor \<times> tensor" where
  "PNet_forward run self x =
     (case sequential run (p_features self) x of
        Inl e \<Rightarrow> Inl e
      | Inr x \<Rightarrow>
         (case apply_layer run (p_conv4_1 self) x of
            Inl e \<Rightarrow> Inl e
          | Inr scores \<Rightarrow>
             (case apply_layer run (p_conv4_2 self) x of
                Inl e \<Rightarrow> Inl e
              | Inr offsets \<Rightarrow>
                 if \<not> p_is_train self
                 then (case softmax 1 scores of
                         Inl e \<Rightarrow> Inl e | Inr scores \<Rightarrow> Inr (scores, offsets))
                 else Inr (scores, offsets))))"

record RNet =
  r_is_train :: bool
  r_features :: "(string \<times> layer) list"
  r_conv5_1 :: "string \<times> layer"
  r_conv5_2 :: "string \<times> layer"

definition RNet_init :: "bool \<Rightarrow> RNet" where
  "RNet_init is_train =
     \<lparr>r_is_train = is_train,
      r_features =
        [(''conv1'', Conv2d 3 28 3 1), (''prelu1'', PReLU 28), (''pool1'', MaxPool2d 3 2),
         (''conv2'', Conv2d 28 48 3 1), (''prelu2'', PReLU 48), (''pool2'', MaxPool2d 3 2),
         (''conv3'', Conv2d 48 64 2 1), (''prelu3'', PReLU 64),
         (''flatten'', Flatten), (''conv4'', Linear (64 * 2 * 2) 128), (''prelu4'', PReLU 128),
         (''dropout'', Dropout 0.2)],
      r_conv5_1 = (''conv5_1'', Linear 128 2),
      r_conv5_2 = (''conv5_2'', Linear 128 4)\<rparr>"

definition RNet_logits :: "runner \<Rightarrow> RNet \<Rightarrow> tensor \<Rightarrow> error + tensor" where
  "RNet_logits run self x =
     (case sequential run (r_features self) x of
        Inl e \<Rightarrow> Inl e
      | Inr x \<Rightarrow> apply_layer run (r_conv5_1 self) x)"

definition RNet_forward :: "runner \<Rightarrow> RNet \<Rightarrow> tensor \<Rightarrow> error + tensor \<times> tensor" where
  "RNet_forward run self x =
     (case sequential run (r_features self) x of
        Inl e \<Rightarrow> Inl e
      | Inr x \<Rightarrow>
         (case apply_layer run (r_conv5_1 self) x of
            Inl e \<Rightarrow> Inl e
          | Inr scores \<Rightarrow>
             (case apply_layer run (r_conv5_2 self) x of
                Inl e \<Rightarrow> Inl e
              | Inr offsets \<Rightarrow>
                 if \<not> r_is_train self
                 then (case softmax 1 scores of
                         Inl e \<Rightarrow> Inl e | Inr scores \<Rightarrow> Inr (scores, offsets))
                 else Inr (scores, offsets))))"

record ONet =
  o_is_train :: bool
  o_features :: "(string \<times> layer) list"
  o_conv6_1 :: "string \<times> layer"
  o_conv6_2 :: "string \<times> layer"
  o_conv6_3 :: "string \<times> layer"

definition ONet_init :: "bool \<Rightarrow> ONet" where
  "ONet_init is_train =
     \<lparr>o_is_train = is_train,
      o_features =
        [(''conv1'', Conv2d 3 32 3 1), (''prelu1'', PReLU 32), (''pool1'', MaxPool2d 3 2),
         (''conv2'', Conv2d 32 64 3 1), (''prelu2'', PReLU 64), (''pool2'', MaxPool2d 3 2),
         (''conv3'', Conv2d 64 64 3 1), (''prelu3'', PReLU 64), (''pool3'', MaxPool2d 2 2),
         (''conv4'', Conv2d 64 128 2 1), (''prelu4'', PReLU 128),
         (''flatten'', Flatten), (''conv5'', Linear (128 * 2 * 2) 256), (''prelu5'', PReLU 256),
         (''dropout'', Dropout 0.2)],
      o_conv6_1 = (''conv6_1'', Linear 256 2),
      o_conv6_2 = (''conv6_2'', Linear 256 4),
      o_conv6_3 = (''conv6_3'', Linear 256 10)\<rparr>"

definition ONet_logits :: "runner \<Rightarrow> ONet \<Rightarrow> tensor \<Rightarrow> error + tensor" where
  "ONet_logits run self x =
     (case sequential run (o_features self) x of
        Inl e \<Rightarrow> Inl e
      | Inr x \<Rightarrow> apply_layer run (o_conv6_1 self) x)"

text \<open>
  \<open>ONet.forward\<close>; \<open>train_landmarks\<close> is \<open>config.TRAIN.train_landmarks\<close> of the global
  configuration, and the third component is the landmarks when it is set.
\<close>

definition ONet_forward ::
  "runner \<Rightarrow> bool \<Rightarrow> ONet \<Rightarrow> tensor \<Rightarrow> error + tensor \<times> tensor \<times> tensor option" where
  "ONet_forward run train_landmarks self x =
     (case sequential run (o_features self) x of
        Inl e \<Rightarrow> Inl e
      | Inr x \<Rightarrow>
         (case apply_layer run (o_conv6_1 self) x of
            Inl e \<Rightarrow> Inl e
          | Inr scores \<Rightarrow>
             (case apply_layer run (o_conv6_2 self) x of
                Inl e \<Rightarrow> Inl e
              | Inr offsets \<Rightarrow>
                 (case (if \<not> o_is_train self then softmax 1 scores else Inr scores) of
                    Inl e \<Rightarrow> Inl e
                  | Inr scores \<Rightarrow>
                     if train_landmarks
                     then (case apply_layer run (o_conv6_3 self) x of
                             Inl e \<Rightarrow> Inl e
                           | Inr landmarks \<Rightarrow> Inr (scores, offsets, Some landmarks))
                     else Inr (scores, offsets, None)))))"

text \<open>
  A score vector of a score tensor: the entries along dimension \<open>1\<close> at a fixed index of
  the other dimensions. It is a probability distribution when every entry is in
  \<open>[0, 1]\<close> and the entries sum to \<open>1\<close>.
\<close>

definition valid_index :: "nat list \<Rightarrow> nat list \<Rightarrow> bool" where
  "valid_index sh idx \<longleftrightarrow> length idx = length sh \<and> (\<forall>d<length sh. idx ! d < sh ! d)"

definition score_vector :: "tensor \<Rightarrow> nat list \<Rightarrow> real list" where
  "score_vector t idx = map (\<lambda>c. elem t (idx[1 := c])) [0..<shape t ! 1]"

definition is_distribution :: "real list \<Rightarrow> bool" where
  "is_distribution ps \<longleftrightarrow> (\<forall>p\<in>set ps. 0 \<le> p \<and> p \<le> 1) \<and> sum_list ps = 1"

section \<open>Example inputs\<close>

text \<open>A configuration with one feature level, and a matching procedure with a fixed answer.\<close>

definition example_cfg :: "string \<Rightarrow> config" where
  "example_cfg t =
     \<lparr>MODEL_num_classes = 2, MODEL_anchor_sizes = [[16, 32]], MODEL_strides = [8],
      TRAIN_overlap_thresholds = [0.35, 0.5], TRAIN_cls_loss_type = t,
      TRAIN_neg_pos_ratio = 3, TRAIN_encode_variance = [0.1, 0.2], TRAIN_use_gpu = True,
      TRAIN_clip_box = True, DATA_image_size = (16, 12)\<rparr>"

definition example_matcher :: "int list list \<Rightarrow> real list list list \<Rightarrow> unit matcher" where
  "example_matcher labels boxes c targets anchor_boxes var =
     (labels, boxes, map (map (\<lambda>_. replicate 10 0)) labels)"

definition example_predictions ::
  "real list list list \<times> real list list list \<times> real list list list" where
  "example_predictions =
     ([[[0, 0], [0, 0]]], [[[1, 0, 0, 0], [0, 0, 0, 0]]], [[replicate 10 0, replicate 10 0]])"

definition zero_runner :: runner where
  "zero_runner nm x idx = 0"

definition example_image :: "nat \<Rightarrow> nat \<Rightarrow> tensor" where
  "example_image h w = \<lparr>shape = [1, 3, h, w], elem = (\<lambda>idx. 0)\<rparr>"

section \<open>Evaluation lemmas\<close>

lemma sigmoid_zero: "sigmoid 0 = 1 / 2"
  by (simp add: sigmoid_def)

lemma bce_elem_zero: "bce_elem 0 t = ln 2"
  by (simp add: bce_elem_def sigmoid_zero ln_div algebra_simps)

lemma cross_entropy_elem_zero:
  "cross_entropy_elem [0, 0] 0 = Inr (ln 2)" "cross_entropy_elem [0, 0] 1 = Inr (ln 2)"
  by (simp_all add: cross_entropy_elem_def cross_entropy_value_def)

lemma bind_err_simps [simp]:
  "bind_err (Inl e) f = Inl e" "bind_err (Inr v) f = f v"
  by (simp_all add: bind_err_def)

lemmas OHEM_eval_defs =
  OHEM_forward_def OHEM_init_def cross_entropy_none_def cross_entropy_sum_def
  selected_mask_row_def neg_boxes_mask_row_def loss_c_row_def pos_boxes_mask_row_def
  mask_select_def mask_select_row_def argsort_desc_def argsort_asc_def num_neg_row_def
  num_pos_row_def view_rows_def view_batch_def masked_fill_zero_def expand_as_def expand_mask_def
  expand_rows_def expand_dim_def broadcast2_def add_masks_def rank_mask_def
  bool_index_def bool_index2_def

lemmas MultiBoxLoss_eval_defs =
  MultiBoxLoss_forward_def MultiBoxLoss_init_def example_cfg_def example_matcher_def
  example_predictions_def smooth_l1_loss_sum_def smooth_l1_elem_def sum_list_replicate
  count_divisor_def relabel_def regression_loss_def

lemma upt_unfold:
  "[0..<2] = [0, 1]" "[0..<3] = [0, 1, 2]" "[0..<Suc (Suc 0)] = [0, 1]"
  "[0..<4] = [0, 1, 2, 3]" "[0..<6] = [0, 1, 2, 3, 4, 5]"
  by (simp_all add: upt_rec)

section \<open>FocalLoss: the cross-entropy factor\<close>

text \<open>
  Claim C1. It says that \<open>FocalLoss.forward\<close> with the default parameters returns the
  mean over all elements of \<open>alpha_t * (1 - p_t)^gamma * ce_t\<close>, with \<open>ce_t\<close> the binary
  cross-entropy of that element. The code passes \<open>reduction='sum'\<close> to the cross-entropy,
  so every element is multiplied by the sum of the cross-entropies of all elements. On
  the logits \<open>[0, 0]\<close> with targets \<open>[1, 0]\<close> the code returns \<open>ln 2 / 4\<close>, and the mean
  focal loss of the paper is \<open>ln 2 / 8\<close>.
\<close>

theorem FocalLoss_forward_sums_cross_entropy:
  "FocalLoss_forward FocalLoss_default [0, 0] [1, 0] = Inr (ln 2 / 4)
   \<and> paper_focal_mean (alpha FocalLoss_default) (gamma FocalLoss_default) [0, 0] [1, 0] = ln 2 / 8
   \<and> ln 2 / 4 \<noteq> (ln 2 / 8 :: real)"
  by (simp add: FocalLoss_forward_def FocalLoss_default_def FocalLoss_init_def
      binary_cross_entropy_with_logits_def mul_bcast_def mean_def sigmoid_zero bce_elem_zero
      paper_focal_mean_def paper_focal_elem_def power2_eq_square)

section \<open>PNet: the size of the output maps\<close>

lemma PNet_shape_arith:
  assumes "12 \<le> (h::nat)"
  shows "3 \<le> h" "2 \<le> h - 2" "3 \<le> (h - 4) div 2 + 1" "3 \<le> (h - 4) div 2 - 1"
    "h - 2 = (h - 3) div 1 + 1"
    "(h - 4) div 2 + 1 = (h - 2 - 2) div 2 + 1"
    "(h - 4) div 2 - 1 = ((h - 4) div 2 + 1 - 3) div 1 + 1"
    "(h - 12) div 2 + 1 = ((h - 4) div 2 - 1 - 3) div 1 + 1"
    "(h - 12) div 2 + 1 = ((h - 12) div 2 + 1 - 1) div 1 + 1"
    "1 \<le> (h - 12) div 2 + 1"
  using assms by presburger+

lemma apply_layer_Conv2d:
  assumes "shape x = [n, cin, h, w]" "k \<le> h" "k \<le> w" "0 < s"
    "h' = (h - k) div s + 1" "w' = (w - k) div s + 1"
  shows "apply_layer run (nm, Conv2d cin cout k s) x =
    Inr \<lparr>shape = [n, cout, h', w'], elem = run nm x\<rparr>"
  using assms by (simp add: apply_layer_def)

lemma apply_layer_MaxPool2d:
  assumes "shape x = [n, c, h, w]" "k \<le> h" "k \<le> w" "0 < s"
    "h' = (h - k) div s + 1" "w' = (w - k) div s + 1"
  shows "apply_layer run (nm, MaxPool2d k s) x =
    Inr \<lparr>shape = [n, c, h', w'], elem = run nm x\<rparr>"
  using assms by (simp add: apply_layer_def)

lemma apply_layer_PReLU:
  assumes "shape x = n # c # rest"
  shows "apply_layer run (nm, PReLU c) x = Inr \<lparr>shape = n # c # rest, elem = run nm x\<rparr>"
  using assms by (simp add: apply_layer_def)

lemma PNet_init_simps:
  "p_is_train (PNet_init b) = b"
  "p_conv4_1 (PNet_init b) = (''conv4_1'', Conv2d 32 2 1 1)"
  "p_conv4_2 (PNet_init b) = (''conv4_2'', Conv2d 32 4 1 1)"
  by (simp_all add: PNet_init_def)

lemma PNet_features_shape:
  assumes "shape x = [n, 3, h, w]" "12 \<le> h" "12 \<le> w"
  shows "\<exists>y. sequential run (p_features (PNet_init is_train)) x = Inr y
           \<and> shape y = [n, 32, (h - 12) div 2 + 1, (w - 12) div 2 + 1]"
proof -
  note ah = PNet_shape_arith[OF assms(2)] and aw = PNet_shape_arith[OF assms(3)]
  define x1 where "x1 = \<lparr>shape = [n, 10, h - 2, w - 2], elem = run ''conv1'' x\<rparr>"
  define x2 where "x2 = \<lparr>shape = [n, 10, h - 2, w - 2], elem = run ''prelu1'' x1\<rparr>"
  define x3 where "x3 = \<lparr>shape = [n, 10, (h - 4) div 2 + 1, (w - 4) div 2 + 1], elem = run ''pool1'' x2\<rparr>"
  define x4 where "x4 = \<lparr>shape = [n, 16, (h - 4) div 2 - 1, (w - 4) div 2 - 1], elem = run ''conv2'' x3\<rparr>"
  define x5 where "x5 = \<lparr>shape = [n, 16, (h - 4) div 2 - 1, (w - 4) div 2 - 1], elem = run ''prelu2'' x4\<rparr>"
  define x6 where "x6 = \<lparr>shape = [n, 32, (h - 12) div 2 + 1, (w - 12) div 2 + 1], elem = run ''conv3'' x5\<rparr>"
  define x7 where "x7 = \<lparr>shape = [n, 32, (h - 12) div 2 + 1, (w - 12) div 2 + 1], elem = run ''prelu3'' x6\<rparr>"
  have 1: "apply_layer run (''conv1'', Conv2d 3 10 3 1) x = Inr x1"
    unfolding x1_def by (rule apply_layer_Conv2d[OF assms(1) ah(1) aw(1) _ ah(5) aw(5)]) simp
  have 2: "apply_layer run (''prelu1'', PReLU 10) x1 = Inr x2"
    unfolding x2_def by (rule apply_layer_PReLU) (simp add: x1_def)
  have 3: "apply_layer run (''pool1'', MaxPool2d 2 2) x2 = Inr x3"
    unfolding x3_def by (rule apply_layer_MaxPool2d[OF _ ah(2) aw(2) _ ah(6) aw(6)]) (simp_all add: x2_def)
  have 4: "apply_layer run (''conv2'', Conv2d 10 16 3 1) x3 = Inr x4"
    unfolding x4_def by (rule apply_layer_Conv2d[OF _ ah(3) aw(3) _ ah(7) aw(7)]) (simp_all add: x3_def)
  have 5: "apply_layer run (''prelu2'', PReLU 16) x4 = Inr x5"
    unfolding x5_def by (rule apply_layer_PReLU) (simp add: x4_def)
  have 6: "apply_layer run (''conv3'', Conv2d 16 32 3 1) x5 = Inr x6"
    unfolding x6_def by (rule apply_layer_Conv2d[OF _ ah(4) aw(4) _ ah(8) aw(8)]) (simp_all add: x5_def)
  have 7: "apply_layer run (''prelu3'', PReLU 32) x6 = Inr x7"
    unfolding x7_def by (rule apply_layer_PReLU) (simp add: x6_def)
  have "sequential run (p_features (PNet_init is_train)) x = Inr x7"
    unfolding PNet_init_def by (simp add: 1 2 3 4 5 6 7 del: One_nat_def)
  moreover have "shape x7 = [n, 32, (h - 12) div 2 + 1, (w - 12) div 2 + 1]"
    by (simp add: x7_def)
  ultimately show ?thesis by blast
qed

text \<open>
  Claim C7. On an image of height \<open>h \<ge> 12\<close> and width \<open>w \<ge> 12\<close> (three channels, any
  batch size) \<open>PNet.forward\<close> returns score and offset maps of spatial size
  \<open>((h - 12) div 2 + 1)\<close> by \<open>((w - 12) div 2 + 1)\<close>, the positions of a 12 by 12 window
  moved with stride 2, with 2 score channels and 4 offset channels.
\<close>

theorem PNet_forward_shape:
  assumes "shape x = [n, 3, h, w]" "12 \<le> h" "12 \<le> w"
  shows "\<exists>scores offsets. PNet_forward run (PNet_init is_train) x = Inr (scores, offsets)
           \<and> shape scores = [n, 2, (h - 12) div 2 + 1, (w - 12) div 2 + 1]
           \<and> shape offsets = [n, 4, (h - 12) div 2 + 1, (w - 12) div 2 + 1]"
proof -
  note ah = PNet_shape_arith[OF assms(2)] and aw = PNet_shape_arith[OF assms(3)]
  obtain y where y: "sequential run (p_features (PNet_init is_train)) x = Inr y"
    "shape y = [n, 32, (h - 12) div 2 + 1, (w - 12) div 2 + 1]"
    using PNet_features_shape[OF assms] by blast
  have c1: "apply_layer run (p_conv4_1 (PNet_init is_train)) y =
      Inr \<lparr>shape = [n, 2, (h - 12) div 2 + 1, (w - 12) div 2 + 1], elem = run ''conv4_1'' y\<rparr>"
    unfolding PNet_init_simps
    by (rule apply_layer_Conv2d[OF y(2) ah(10) aw(10) _ ah(9) aw(9)]) simp
  have c2: "apply_layer run (p_conv4_2 (PNet_init is_train)) y =
      Inr \<lparr>shape = [n, 4, (h - 12) div 2 + 1, (w - 12) div 2 + 1], elem = run ''conv4_2'' y\<rparr>"
    unfolding PNet_init_simps
    by (rule apply_layer_Conv2d[OF y(2) ah(10) aw(10) _ ah(9) aw(9)]) simp
  show ?thesis
    by (simp add: PNet_forward_def y(1) c1 c2 softmax_def PNet_init_simps(1))
qed

theorem PNet_forward_shape_witness:
  "shape (example_image 17 12) = [1, 3, 17, 12] \<and> (12::nat) \<le> 17 \<and> (12::nat) \<le> 12
   \<and> (\<exists>scores offsets.
        PNet_forward zero_runner (PNet_init False) (example_image 17 12) = Inr (scores, offsets)
        \<and> shape scores = [1, 2, 3, 1] \<and> shape offsets = [1, 4, 3, 1])"
proof -
  have s: "shape (example_image 17 12) = [1, 3, 17, 12]"
    by (simp add: example_image_def)
  show ?thesis
    using s PNet_forward_shape [OF s, of zero_runner False] by simp
qed

section \<open>PNet, RNet, ONet: the scores\<close>

lemma sum_list_divide_const: "sum_list (map (\<lambda>c. f c / (s::real)) xs) = sum_list (map f xs) / s"
  by (induction xs) (simp_all add: add_divide_distrib)

lemma sum_list_map_nonneg:
  assumes "\<forall>x\<in>set xs. 0 \<le> f x"
  shows "(0::real) \<le> sum_list (map f xs)"
  using assms by (induction xs) simp_all

lemma member_le_sum_list_real:
  assumes "\<forall>x\<in>set xs. 0 \<le> f x" "c \<in> set xs"
  shows "f c \<le> (sum_list (map f xs) :: real)"
  using assms
proof (induction xs)
  case Nil
  then show ?case by simp
next
  case (Cons a xs)
  have nn: "0 \<le> sum_list (map f xs)" using Cons.prems(1) by (simp add: sum_list_map_nonneg)
  show ?case
  proof (cases "c = a")
    case True
    then show ?thesis using nn by simp
  next
    case False
    then have "f c \<le> sum_list (map f xs)" using Cons by simp
    moreover have "0 \<le> f a" using Cons.prems(1) by simp
    ultimately show ?thesis by simp
  qed
qed

lemma softmax_distribution:
  assumes "softmax 1 x = Inr y" "0 < shape x ! 1"
  shows "shape y = shape x" "is_distribution (score_vector y idx)"
proof -
  define e where "e = (\<lambda>c. exp (elem x (idx[1 := c])))"
  define s where "s = sum_list (map e [0..<shape x ! 1])"
  have y: "y = \<lparr>shape = shape x,
                elem = (\<lambda>idx. exp (elem x idx)
                          / (\<Sum>c\<leftarrow>[0..<shape x ! 1]. exp (elem x (idx[1 := c]))))\<rparr>"
    using assms(1) by (simp add: softmax_def split: if_splits)
  show "shape y = shape x" by (simp add: y)
  have vec: "score_vector y idx = map (\<lambda>c. e c / s) [0..<shape x ! 1]"
    by (simp add: score_vector_def y e_def s_def)
  have pos: "\<forall>c\<in>set [0..<shape x ! 1]. 0 \<le> e c" by (simp add: e_def)
  have "0 \<in> set [0..<shape x ! 1]" using assms(2) by simp
  then have "e 0 \<le> s" unfolding s_def by (rule member_le_sum_list_real[OF pos])
  moreover have "0 < e 0" by (simp add: e_def)
  ultimately have spos: "0 < s" by linarith
  have "sum_list (score_vector y idx) = 1"
    unfolding vec sum_list_divide_const using spos by (simp add: s_def)
  moreover have "0 \<le> p \<and> p \<le> 1" if "p \<in> set (score_vector y idx)" for p
  proof -
    from that have "p \<in> (\<lambda>c. e c / s) ` set [0..<shape x ! 1]"
      by (simp only: vec set_map)
    then obtain c where c: "c \<in> set [0..<shape x ! 1]" "p = e c / s"
      by blast
    have "e c \<le> s" unfolding s_def by (rule member_le_sum_list_real[OF pos c(1)])
    moreover have "0 \<le> e c" by (simp add: e_def)
    ultimately show ?thesis using spos c(2) by simp
  qed
  ultimately show "is_distribution (score_vector y idx)"
    by (simp add: is_distribution_def)
qed

lemma apply_layer_Conv2d_channels:
  assumes "apply_layer run (nm, Conv2d cin cout k s) x = Inr y"
  shows "shape y ! 1 = cout"
proof -
  obtain sh where sh: "out_shape (Conv2d cin cout k s) (shape x) = Some sh" "shape y = sh"
    using assms by (auto simp: apply_layer_def split: option.splits)
  from sh(1) have "sh ! 1 = cout"
    by (cases "(Conv2d cin cout k s, shape x)" rule: out_shape.cases)
       (auto split: if_splits)
  then show ?thesis by (simp add: sh(2))
qed

lemma apply_layer_Linear_features:
  assumes "apply_layer run (nm, Linear fin fout) x = Inr y"
  shows "shape y ! 1 = fout"
proof -
  obtain sh where sh: "out_shape (Linear fin fout) (shape x) = Some sh" "shape y = sh"
    using assms by (auto simp: apply_layer_def split: option.splits)
  from sh(1) have "sh ! 1 = fout"
    by (cases "(Linear fin fout, shape x)" rule: out_shape.cases)
       (auto split: if_splits)
  then show ?thesis by (simp add: sh(2))
qed

lemma RNet_example: "\<exists>s f. RNet_forward zero_runner (RNet_init b) (example_image 24 24) = Inr (s, f)"
  by (cases b) (simp_all add: RNet_forward_def RNet_init_def apply_layer_def example_image_def softmax_def)

lemma ONet_example: "\<exists>s f l. ONet_forward zero_runner lm (ONet_init b) (example_image 48 48) = Inr (s, f, l)"
  by (cases b) (simp_all add: ONet_forward_def ONet_init_def apply_layer_def example_image_def softmax_def)


lemma RNet_init_simps:
  "r_is_train (RNet_init b) = b"
  "r_conv5_1 (RNet_init b) = (''conv5_1'', Linear 128 2)"
  "r_conv5_2 (RNet_init b) = (''conv5_2'', Linear 128 4)"
  by (simp_all add: RNet_init_def)

lemma ONet_init_simps:
  "o_is_train (ONet_init b) = b"
  "o_conv6_1 (ONet_init b) = (''conv6_1'', Linear 256 2)"
  "o_conv6_2 (ONet_init b) = (''conv6_2'', Linear 256 4)"
  "o_conv6_3 (ONet_init b) = (''conv6_3'', Linear 256 10)"
  by (simp_all add: ONet_init_def)

lemma PNet_scores_inference:
  assumes "PNet_forward run (PNet_init False) x = Inr (scores, offsets)"
  shows "shape scores ! 1 = 2 \<and> (\<forall>idx. is_distribution (score_vector scores idx))"
proof -
  obtain y raw where raw: "apply_layer run (''conv4_1'', Conv2d 32 2 1 1) y = Inr raw"
    and sm: "softmax 1 raw = Inr scores"
    using assms by (auto simp: PNet_forward_def PNet_init_simps split: sum.splits)
  have c: "shape raw ! 1 = 2" by (rule apply_layer_Conv2d_channels[OF raw])
  then have "0 < shape raw ! 1" by simp
  from softmax_distribution[OF sm this] c show ?thesis by simp
qed

lemma PNet_scores_training:
  assumes "PNet_forward run (PNet_init True) x = Inr (scores, offsets)"
  shows "PNet_logits run (PNet_init True) x = Inr scores"
  using assms by (auto simp: PNet_forward_def PNet_logits_def PNet_init_simps split: sum.splits)

lemma RNet_scores_inference:
  assumes "RNet_forward run (RNet_init False) x = Inr (scores, offsets)"
  shows "shape scores ! 1 = 2 \<and> (\<forall>idx. is_distribution (score_vector scores idx))"
proof -
  obtain y raw where raw: "apply_layer run (''conv5_1'', Linear 128 2) y = Inr raw"
    and sm: "softmax 1 raw = Inr scores"
    using assms by (auto simp: RNet_forward_def RNet_init_simps split: sum.splits)
  have c: "shape raw ! 1 = 2" by (rule apply_layer_Linear_features[OF raw])
  then have "0 < shape raw ! 1" by simp
  from softmax_distribution[OF sm this] c show ?thesis by simp
qed

lemma RNet_scores_training:
  assumes "RNet_forward run (RNet_init True) x = Inr (scores, offsets)"
  shows "RNet_logits run (RNet_init True) x = Inr scores"
  using assms by (auto simp: RNet_forward_def RNet_logits_def RNet_init_simps split: sum.splits)

lemma ONet_scores_inference:
  assumes "ONet_forward run lm (ONet_init False) x = Inr (scores, offsets, landmarks)"
  shows "shape scores ! 1 = 2 \<and> (\<forall>idx. is_distribution (score_vector scores idx))"
proof -
  obtain y raw where raw: "apply_layer run (''conv6_1'', Linear 256 2) y = Inr raw"
    and sm: "softmax 1 raw = Inr scores"
    using assms by (auto simp: ONet_forward_def ONet_init_simps split: sum.splits if_splits)
  have c: "shape raw ! 1 = 2" by (rule apply_layer_Linear_features[OF raw])
  then have "0 < shape raw ! 1" by simp
  from softmax_distribution[OF sm this] c show ?thesis by simp
qed

lemma ONet_scores_training:
  assumes "ONet_forward run lm (ONet_init True) x = Inr (scores, offsets, landmarks)"
  shows "ONet_logits run (ONet_init True) x = Inr scores"
  using assms
  by (auto simp: ONet_forward_def ONet_logits_def ONet_init_simps split: sum.splits if_splits)

lemma PNet_example: "\<exists>s f. PNet_forward zero_runner (PNet_init b) (example_image 12 12) = Inr (s, f)"
  by (cases b) (simp_all add: PNet_forward_def PNet_init_def apply_layer_def example_image_def softmax_def)

text \<open>
  Claim C8. For each of \<open>PNet\<close>, \<open>RNet\<close> and \<open>ONet\<close>: constructed with
  \<open>is_train=False\<close>, every score vector over the 2 classes that \<open>forward\<close> returns is
  a probability distribution (entries in \<open>[0, 1]\<close> that sum to \<open>1\<close>), since softmax is
  applied along the class dimension; constructed with \<open>is_train=True\<close>, \<open>forward\<close> returns
  the score logits as the last layer computes them.
\<close>

theorem MTCNN_scores_softmax:
  "(PNet_forward run (PNet_init False) x = Inr (scores, offsets) \<longrightarrow>
      shape scores ! 1 = 2 \<and> (\<forall>idx. is_distribution (score_vector scores idx)))
   \<and> (PNet_forward run (PNet_init True) x = Inr (scores, offsets) \<longrightarrow>
      PNet_logits run (PNet_init True) x = Inr scores)
   \<and> (RNet_forward run (RNet_init False) x = Inr (scores, offsets) \<longrightarrow>
      shape scores ! 1 = 2 \<and> (\<forall>idx. is_distribution (score_vector scores idx)))
   \<and> (RNet_forward run (RNet_init True) x = Inr (scores, offsets) \<longrightarrow>
      RNet_logits run (RNet_init True) x = Inr scores)
   \<and> (ONet_forward run lm (ONet_init False) x = Inr (scores, offsets, landmarks) \<longrightarrow>
      shape scores ! 1 = 2 \<and> (\<forall>idx. is_distribution (score_vector scores idx)))
   \<and> (ONet_forward run lm (ONet_init True) x = Inr (scores, offsets, landmarks) \<longrightarrow>
      ONet_logits run (ONet_init True) x = Inr scores)"
  using PNet_scores_inference[of run x scores offsets] PNet_scores_training[of run x scores offsets]
    RNet_scores_inference[of run x scores offsets] RNet_scores_training[of run x scores offsets]
    ONet_scores_inference[of run lm x scores offsets landmarks]
    ONet_scores_training[of run lm x scores offsets landmarks]
  by simp

theorem MTCNN_scores_softmax_witness:
  "\<exists>sp fp sp' fp' sr fr sr' fr' so fo lo so' fo' lo'.
     PNet_forward zero_runner (PNet_init False) (example_image 12 12) = Inr (sp, fp)
     \<and> shape sp ! 1 = 2 \<and> is_distribution (score_vector sp [0, 0, 0, 0])
     \<and> PNet_forward zero_runner (PNet_init True) (example_image 12 12) = Inr (sp', fp')
     \<and> PNet_logits zero_runner (PNet_init True) (example_image 12 12) = Inr sp'
     \<and> RNet_forward zero_runner (RNet_init False) (example_image 24 24) = Inr (sr, fr)
     \<and> shape sr ! 1 = 2 \<and> is_distribution (score_vector sr [0, 0])
     \<and> RNet_forward zero_runner (RNet_init True) (example_image 24 24) = Inr (sr', fr')
     \<and> RNet_logits zero_runner (RNet_init True) (example_image 24 24) = Inr sr'
     \<and> ONet_forward zero_runner True (ONet_init False) (example_image 48 48) = Inr (so, fo, lo)
     \<and> shape so ! 1 = 2 \<and> is_distribution (score_vector so [0, 0])
     \<and> ONet_forward zero_runner True (ONet_init True) (example_image 48 48) = Inr (so', fo', lo')
     \<and> ONet_logits zero_runner (ONet_init True) (example_image 48 48) = Inr so'"
proof -
  obtain sp fp where p: "PNet_forward zero_runner (PNet_init False) (example_image 12 12) = Inr (sp, fp)"
    using PNet_example[of False] by blast
  obtain sp' fp' where p': "PNet_forward zero_runner (PNet_init True) (example_image 12 12) = Inr (sp', fp')"
    using PNet_example[of True] by blast
  obtain sr fr where r: "RNet_forward zero_runner (RNet_init False) (example_image 24 24) = Inr (sr, fr)"
    using RNet_example[of False] by blast
  obtain sr' fr' where r': "RNet_forward zero_runner (RNet_init True) (example_image 24 24) = Inr (sr', fr')"
    using RNet_example[of True] by blast
  obtain so fo lo where o: "ONet_forward zero_runner True (ONet_init False) (example_image 48 48) = Inr (so, fo, lo)"
    using ONet_example[of True False] by blast
  obtain so' fo' lo' where o': "ONet_forward zero_runner True (ONet_init True) (example_image 48 48) = Inr (so', fo', lo')"
    using ONet_example[of True True] by blast
  have 1: "shape sp ! 1 = 2 \<and> is_distribution (score_vector sp [0, 0, 0, 0])"
    using p MTCNN_scores_softmax[of zero_runner "example_image 12 12" sp fp] by blast
  have 2: "PNet_logits zero_runner (PNet_init True) (example_image 12 12) = Inr sp'"
    using p' MTCNN_scores_softmax[of zero_runner "example_image 12 12" sp' fp'] by blast
  have 3: "shape sr ! 1 = 2 \<and> is_distribution (score_vector sr [0, 0])"
    using r MTCNN_scores_softmax[of zero_runner "example_image 24 24" sr fr] by blast
  have 4: "RNet_logits zero_runner (RNet_init True) (example_image 24 24) = Inr sr'"
    using r' MTCNN_scores_softmax[of zero_runner "example_image 24 24" sr' fr'] by blast
  have 5: "shape so ! 1 = 2 \<and> is_distribution (score_vector so [0, 0])"
    using o MTCNN_scores_softmax[of zero_runner "example_image 48 48" so fo True lo] by blast
  have 6: "ONet_logits zero_runner (ONet_init True) (example_image 48 48) = Inr so'"
    using o' MTCNN_scores_softmax[of zero_runner "example_image 48 48" so' fo' True lo'] by blast
  show ?thesis using p p' r r' o o' 1 2 3 4 5 6 by blast
qed

section \<open>FocalLoss: monotonicity\<close>

lemma sigmoid_bounds: "0 < sigmoid x" "sigmoid x < 1"
proof -
  have p: "0 < 1 + exp (- x)" by (rule add_pos_pos) simp_all
  show "0 < sigmoid x" unfolding sigmoid_def using p by simp
  show "sigmoid x < 1" unfolding sigmoid_def by (simp add: divide_less_eq_1_pos[OF p])
qed

lemma sigmoid_mono: "x \<le> y \<Longrightarrow> sigmoid x \<le> sigmoid y"
proof -
  assume "x \<le> y"
  then have "exp (- y) \<le> exp (- x)" by simp
  moreover have "0 < 1 + exp (- y)" by (simp add: add_pos_pos)
  ultimately show ?thesis unfolding sigmoid_def by (simp add: frac_le)
qed

lemma bce_elem_one: "bce_elem x 1 = - ln (sigmoid x)"
  by (simp add: bce_elem_def)

lemma bce_elem_zero_target: "bce_elem x 0 = - ln (1 - sigmoid x)"
  by (simp add: bce_elem_def)

lemma bce_elem_nonneg: "t = 0 \<or> t = 1 \<Longrightarrow> 0 \<le> bce_elem x t"
  using sigmoid_bounds[of x] by (auto simp: bce_elem_one bce_elem_zero_target)

lemma bce_elem_toward_target:
  assumes "t = 0 \<or> t = 1" "if t = 1 then x \<le> x' else x' \<le> x"
  shows "bce_elem x' t \<le> bce_elem x t"
proof (cases "t = 1")
  case True
  then have "sigmoid x \<le> sigmoid x'" using assms(2) by (simp add: sigmoid_mono)
  then show ?thesis using True sigmoid_bounds[of x] by (simp add: bce_elem_one)
next
  case False
  then have t: "t = 0" using assms(1) by simp
  then have "sigmoid x' \<le> sigmoid x" using assms(2) by (simp add: sigmoid_mono)
  then show ?thesis using t sigmoid_bounds[of x] sigmoid_bounds[of x'] by (simp add: bce_elem_zero_target)
qed

lemma focal_weight_nonneg:
  assumes "t = 0 \<or> t = 1" "0 \<le> a" "a \<le> 1"
  shows "0 \<le> focal_weight a g x t"
  using assms sigmoid_bounds[of x] by (auto simp: focal_weight_def)

lemma focal_weight_toward_target:
  assumes "t = 0 \<or> t = 1" "0 \<le> a" "a \<le> 1" "if t = 1 then x \<le> x' else x' \<le> x"
  shows "focal_weight a g x' t \<le> focal_weight a g x t"
proof (cases "t = 1")
  case True
  then have "sigmoid x \<le> sigmoid x'" using assms(4) by (simp add: sigmoid_mono)
  then have "(1 - sigmoid x') ^ g \<le> (1 - sigmoid x) ^ g"
    using sigmoid_bounds[of x'] by (intro power_mono) simp_all
  then show ?thesis using True assms(2) by (simp add: focal_weight_def mult_left_mono)
next
  case False
  then have t: "t = 0" using assms(1) by simp
  then have "sigmoid x' \<le> sigmoid x" using assms(4) by (simp add: sigmoid_mono)
  then have "sigmoid x' ^ g \<le> sigmoid x ^ g"
    using sigmoid_bounds[of x'] by (intro power_mono) simp_all
  then show ?thesis using t assms(3) by (simp add: focal_weight_def mult_left_mono)
qed

lemma sum_list_map2_update_le:
  assumes "length xs = length ts" "j < length xs" "f x' (ts ! j) \<le> (f (xs ! j) (ts ! j) :: real)"
  shows "sum_list (map2 f (xs[j := x']) ts) \<le> sum_list (map2 f xs ts)"
  using assms
proof (induction xs ts arbitrary: j rule: list_induct2)
  case Nil
  then show ?case by simp
next
  case (Cons x xs t ts)
  then show ?case by (cases j) simp_all
qed

lemma sum_list_map2_nonneg:
  assumes "\<forall>t\<in>set ts. P t" "\<And>x t. P t \<Longrightarrow> 0 \<le> (f x t :: real)"
  shows "0 \<le> sum_list (map2 f xs ts)"
  using assms(1)
proof (induction ts arbitrary: xs)
  case Nil
  then show ?case by simp
next
  case (Cons t ts)
  then show ?case by (cases xs) (simp_all add: assms(2))
qed

lemma focal_weights_eq:
  assumes "length xs = length ts"
  shows "map2 (\<lambda>a p. a * (1 - p) ^ g) (map (\<lambda>t. t * a + (1 - t) * (1 - a)) ts)
           (map2 (\<lambda>t p. if t = 1 then p else 1 - p) ts (map sigmoid xs))
         = map2 (focal_weight a g) xs ts"
  using assms by (induction xs ts rule: list_induct2) (simp_all add: focal_weight_def)

lemma mul_bcast_single: "mul_bcast ws [c] = map (\<lambda>w. w * c) ws"
  by (simp add: mul_bcast_def)

lemma sum_list_mult_div_right:
  "sum_list (map (\<lambda>w. w * (c::real) / n) ws) = sum_list ws * c / n"
  by (induction ws) (simp_all add: algebra_simps add_divide_distrib)

lemma sum_list_mult_right: "sum_list (map (\<lambda>w. w * (c::real)) ws) = sum_list ws * c"
  by (induction ws) (simp_all add: algebra_simps)

lemma mul_bcast_full:
  assumes "length ws = length cs"
  shows "sum_list (mul_bcast ws cs) = sum_list (map2 (*) ws cs)"
proof (cases "length cs = 1")
  case True
  then obtain c where c: "cs = [c]" by (cases cs) simp_all
  with assms obtain w where w: "ws = [w]" by (cases ws) simp_all
  show ?thesis by (simp add: c w mul_bcast_def)
next
  case False
  then show ?thesis by (simp add: mul_bcast_def)
qed

lemma length_mul_bcast:
  "length cs = 1 \<or> length cs = length ws \<Longrightarrow> length (mul_bcast ws cs) = length ws"
  by (auto simp: mul_bcast_def)

lemma map2_mult_map2:
  assumes "length xs = length ts"
  shows "map2 (*) (map2 f xs ts) (map2 h xs ts) = map2 (\<lambda>x t. f x t * (h x t :: real)) xs ts"
  using assms by (induction xs ts rule: list_induct2) simp_all

text \<open>The value of \<open>FocalLoss.forward\<close> for each reduction, on tensors of equal size.\<close>

lemma FocalLoss_forward_value:
  assumes "length xs = length ts"
  shows "reduction self = ''sum'' \<Longrightarrow> FocalLoss_forward self xs ts =
      Inr (sum_list (map2 (focal_weight (alpha self) (gamma self)) xs ts)
            * sum_list (map2 bce_elem xs ts) / real (length xs))"
    "reduction self = ''mean'' \<Longrightarrow> FocalLoss_forward self xs ts =
      Inr (sum_list (map2 (focal_weight (alpha self) (gamma self)) xs ts)
            * (sum_list (map2 bce_elem xs ts) / real (length xs)) / real (length xs))"
    "reduction self = ''none'' \<Longrightarrow> FocalLoss_forward self xs ts =
      Inr (sum_list (map2 (\<lambda>x t. focal_weight (alpha self) (gamma self) x t * bce_elem x t) xs ts)
            / real (length xs))"
proof -
  define W where "W = map2 (focal_weight (alpha self) (gamma self)) xs ts"
  define C where "C = map2 bce_elem xs ts"
  have lW: "length W = length xs" and lC: "length C = length xs"
    using assms by (simp_all add: W_def C_def)
  have fw: "FocalLoss_forward self xs ts =
      (case binary_cross_entropy_with_logits xs ts (reduction self) of
         Inl e \<Rightarrow> Inl e | Inr ce \<Rightarrow> Inr (mean (mul_bcast W ce)))"
    unfolding FocalLoss_forward_def Let_def focal_weights_eq[OF assms] W_def ..
  have WC: "map2 (*) W C = map2 (\<lambda>x t. focal_weight (alpha self) (gamma self) x t * bce_elem x t) xs ts"
    unfolding W_def C_def by (rule map2_mult_map2[OF assms])
  show "reduction self = ''sum'' \<Longrightarrow> FocalLoss_forward self xs ts =
      Inr (sum_list (map2 (focal_weight (alpha self) (gamma self)) xs ts)
            * sum_list (map2 bce_elem xs ts) / real (length xs))"
    unfolding fw W_def[symmetric] C_def[symmetric] using assms
    by (simp add: binary_cross_entropy_with_logits_def C_def[symmetric] mul_bcast_single mean_def
        sum_list_mult_right lW)
  show "reduction self = ''mean'' \<Longrightarrow> FocalLoss_forward self xs ts =
      Inr (sum_list (map2 (focal_weight (alpha self) (gamma self)) xs ts)
            * (sum_list (map2 bce_elem xs ts) / real (length xs)) / real (length xs))"
    unfolding fw W_def[symmetric] C_def[symmetric] using assms
    by (simp add: binary_cross_entropy_with_logits_def C_def[symmetric] mul_bcast_single mean_def
        sum_list_mult_right sum_list_mult_div_right lW lC)
  have l: "length W = length C" by (simp add: lW lC)
  show "reduction self = ''none'' \<Longrightarrow> FocalLoss_forward self xs ts =
      Inr (sum_list (map2 (\<lambda>x t. focal_weight (alpha self) (gamma self) x t * bce_elem x t) xs ts)
            / real (length xs))"
    unfolding fw WC[symmetric] using assms
    by (simp add: binary_cross_entropy_with_logits_def C_def[symmetric] mean_def
        mul_bcast_full[OF l] length_mul_bcast lW lC)
qed


text \<open>
  Claim C6. For fixed binary targets, the value \<open>FocalLoss.forward\<close> returns does not
  increase when one logit moves toward its target (up for target \<open>1\<close>, down for target
  \<open>0\<close>, that is, when the predicted probability of the true class grows) and all other
  logits stay fixed. This holds for every reduction the constructor accepts and every
  \<open>alpha\<close> in \<open>[0, 1]\<close>, the defaults among them.
\<close>

theorem FocalLoss_forward_monotone:
  assumes "length pred_logits = length targets"
    and "\<forall>t\<in>set targets. t = 0 \<or> t = 1"
    and "j < length pred_logits"
    and "0 \<le> alpha self" "alpha self \<le> 1"
    and "reduction self \<in> {''none'', ''mean'', ''sum''}"
    and "if targets ! j = 1 then pred_logits ! j \<le> x' else x' \<le> pred_logits ! j"
  shows "\<exists>l l'. FocalLoss_forward self pred_logits targets = Inr l
           \<and> FocalLoss_forward self (pred_logits[j := x']) targets = Inr l'
           \<and> l' \<le> l"
proof -
  let ?xs = pred_logits and ?xs' = "pred_logits[j := x']" and ?ts = targets
  let ?w = "focal_weight (alpha self) (gamma self)"
  have len': "length ?xs' = length ?ts" using assms(1) by simp
  have tj: "?ts ! j = 0 \<or> ?ts ! j = 1" using assms(1,2,3) by simp
  have n: "0 < real (length ?xs)" using assms(3) by (cases pred_logits) simp_all
  have wj: "?w x' (?ts ! j) \<le> ?w (?xs ! j) (?ts ! j)"
    by (rule focal_weight_toward_target[OF tj assms(4,5,7)])
  have cj: "bce_elem x' (?ts ! j) \<le> bce_elem (?xs ! j) (?ts ! j)"
    by (rule bce_elem_toward_target[OF tj assms(7)])
  have wnn: "0 \<le> ?w x t" if "t = 0 \<or> t = 1" for x t
    by (rule focal_weight_nonneg[OF that assms(4,5)])
  have cnn: "0 \<le> bce_elem x t" if "t = 0 \<or> t = 1" for x t
    by (rule bce_elem_nonneg[OF that])
  have W: "sum_list (map2 ?w ?xs' ?ts) \<le> sum_list (map2 ?w ?xs ?ts)"
    by (rule sum_list_map2_update_le[where f = ?w, OF assms(1,3) wj])
  have C: "sum_list (map2 bce_elem ?xs' ?ts) \<le> sum_list (map2 bce_elem ?xs ?ts)"
    by (rule sum_list_map2_update_le[where f = bce_elem, OF assms(1,3) cj])
  have W0: "0 \<le> sum_list (map2 ?w ?xs' ?ts)"
    by (rule sum_list_map2_nonneg[where P = "\<lambda>t. t = 0 \<or> t = 1" and f = ?w, OF assms(2)]) (rule wnn)
  have C0: "0 \<le> sum_list (map2 bce_elem ?xs' ?ts)"
    by (rule sum_list_map2_nonneg[where P = "\<lambda>t. t = 0 \<or> t = 1" and f = bce_elem, OF assms(2)]) (rule cnn)
  have WC: "sum_list (map2 ?w ?xs' ?ts) * sum_list (map2 bce_elem ?xs' ?ts)
      \<le> sum_list (map2 ?w ?xs ?ts) * sum_list (map2 bce_elem ?xs ?ts)"
    using W C W0 C0 by (intro mult_mono) linarith+
  have pj: "?w x' (?ts ! j) * bce_elem x' (?ts ! j) \<le> ?w (?xs ! j) (?ts ! j) * bce_elem (?xs ! j) (?ts ! j)"
    using wj cj wnn[OF tj, of x'] cnn[OF tj, of x'] wnn[OF tj, of "?xs ! j"] cnn[OF tj, of "?xs ! j"]
    by (intro mult_mono) linarith+
  have P: "sum_list (map2 (\<lambda>x t. ?w x t * bce_elem x t) ?xs' ?ts)
      \<le> sum_list (map2 (\<lambda>x t. ?w x t * bce_elem x t) ?xs ?ts)"
    by (rule sum_list_map2_update_le[where f = "\<lambda>x t. ?w x t * bce_elem x t", OF assms(1,3) pj])
  consider "reduction self = ''sum''" | "reduction self = ''mean''" | "reduction self = ''none''"
    using assms(6) by auto
  then show ?thesis
  proof cases
    case 1
    have "sum_list (map2 ?w ?xs' ?ts) * sum_list (map2 bce_elem ?xs' ?ts) / real (length ?xs)
        \<le> sum_list (map2 ?w ?xs ?ts) * sum_list (map2 bce_elem ?xs ?ts) / real (length ?xs)"
      using WC n by (simp add: divide_right_mono)
    then show ?thesis
      using FocalLoss_forward_value(1)[OF assms(1) 1] FocalLoss_forward_value(1)[OF len' 1]
      by simp
  next
    case 2
    have "sum_list (map2 ?w ?xs' ?ts) * sum_list (map2 bce_elem ?xs' ?ts)
            / (real (length ?xs) * real (length ?xs))
        \<le> sum_list (map2 ?w ?xs ?ts) * sum_list (map2 bce_elem ?xs ?ts)
            / (real (length ?xs) * real (length ?xs))"
      using WC n by (simp add: divide_right_mono)
    then show ?thesis
      using FocalLoss_forward_value(2)[OF assms(1) 2] FocalLoss_forward_value(2)[OF len' 2]
      by simp
  next
    case 3
    have "sum_list (map2 (\<lambda>x t. ?w x t * bce_elem x t) ?xs' ?ts) / real (length ?xs)
        \<le> sum_list (map2 (\<lambda>x t. ?w x t * bce_elem x t) ?xs ?ts) / real (length ?xs)"
      using P n by (simp add: divide_right_mono)
    then show ?thesis
      using FocalLoss_forward_value(3)[OF assms(1) 3] FocalLoss_forward_value(3)[OF len' 3]
      by simp
  qed
qed

theorem FocalLoss_forward_monotone_witness:
  "\<exists>l l'. FocalLoss_forward FocalLoss_default [0, 0] [1, 0] = Inr l
     \<and> FocalLoss_forward FocalLoss_default ([0, 0][0 := 1]) [1, 0] = Inr l'
     \<and> l' \<le> l"
  using FocalLoss_forward_monotone[of "[0, 0]" "[1, 0]" 0 FocalLoss_default 1]
  by (simp add: FocalLoss_default_def FocalLoss_init_def)

section \<open>AnchorGenerator: the anchors\<close>

lemma length_anchor_at: "length (anchor_at self k i j m) = 4"
  by (simp add: anchor_at_def Let_def)

lemma level_anchors_rows: "level_anchors self k f = concat (level_rows self k f)"
proof -
  have "concat (map (\<lambda>(i, j). concat (map g ms)) cells)
        = concat (concat (map (\<lambda>(i, j). map g ms) cells))" for g :: "int \<Rightarrow> real list" and ms and cells :: "(nat \<times> nat) list"
    by (induction cells) auto
  have "concat (map (\<lambda>(i, j). concat (map (g i j) ms)) cells)
        = concat (concat (map (\<lambda>(i, j). map (g i j) ms) cells))"
    for g :: "nat \<Rightarrow> nat \<Rightarrow> int \<Rightarrow> real list" and ms and cells :: "(nat \<times> nat) list"
    by (induction cells) auto
  then show ?thesis by (simp add: level_anchors_def level_rows_def)
qed

lemma length_level_rows:
  "length (level_rows self k f) = nat (fst f) * nat (snd f) * length (min_sizes self ! k)"
proof -
  have "length (concat (map (\<lambda>(i, j). map (g i j) ms) cells)) = length cells * length ms"
    for g :: "nat \<Rightarrow> nat \<Rightarrow> int \<Rightarrow> real list" and ms and cells :: "(nat \<times> nat) list"
    by (induction cells) auto
  then show ?thesis by (simp add: level_rows_def)
qed

lemma set_level_rows:
  "set (level_rows self k f) =
     {anchor_at self k i j m | i j m. i < nat (fst f) \<and> j < nat (snd f) \<and> m \<in> set (min_sizes self ! k)}"
proof -
  have "set (level_rows self k f) =
      (\<Union>(i, j)\<in>{0..<nat (fst f)} \<times> {0..<nat (snd f)}. anchor_at self k i j ` set (min_sizes self ! k))"
    by (auto simp: level_rows_def)
  also have "\<dots> = {anchor_at self k i j m | i j m.
      i < nat (fst f) \<and> j < nat (snd f) \<and> m \<in> set (min_sizes self ! k)}"
  proof (intro set_eqI iffI)
    fix a
    assume "a \<in> (\<Union>(i, j)\<in>{0..<nat (fst f)} \<times> {0..<nat (snd f)}.
                    anchor_at self k i j ` set (min_sizes self ! k))"
    then obtain i j m where "i < nat (fst f)" "j < nat (snd f)" "m \<in> set (min_sizes self ! k)"
      "a = anchor_at self k i j m" by auto
    then show "a \<in> {anchor_at self k i j m | i j m.
      i < nat (fst f) \<and> j < nat (snd f) \<and> m \<in> set (min_sizes self ! k)}" by blast
  next
    fix a
    assume "a \<in> {anchor_at self k i j m | i j m.
      i < nat (fst f) \<and> j < nat (snd f) \<and> m \<in> set (min_sizes self ! k)}"
    then obtain i j m where ijm: "i < nat (fst f)" "j < nat (snd f)" "m \<in> set (min_sizes self ! k)"
      "a = anchor_at self k i j m" by blast
    have "(i, j) \<in> {0..<nat (fst f)} \<times> {0..<nat (snd f)}" using ijm(1,2) by simp
    moreover have "a \<in> anchor_at self k i j ` set (min_sizes self ! k)" using ijm(3,4) by blast
    ultimately show "a \<in> (\<Union>(i, j)\<in>{0..<nat (fst f)} \<times> {0..<nat (snd f)}.
                    anchor_at self k i j ` set (min_sizes self ! k))" by blast
  qed
  finally show ?thesis .
qed

lemma anchors_from_rows:
  assumes "k + length fs \<le> length (min_sizes self)"
  shows "anchors_from self k fs = Inr (concat (concat (map2 (level_rows self) [k..<k + length fs] fs)))"
  using assms
proof (induction fs arbitrary: k)
  case Nil
  then show ?case by simp
next
  case (Cons f fs)
  have k: "k < length (min_sizes self)" using Cons.prems by simp
  have ih: "anchors_from self (Suc k) fs =
      Inr (concat (concat (map2 (level_rows self) [Suc k..<Suc k + length fs] fs)))"
    using Cons.prems by (intro Cons.IH) simp
  have upt: "[k..<k + length (f # fs)] = k # [Suc k..<Suc k + length fs]"
    using upt_conv_Cons[of k "k + Suc (length fs)"] by simp
  show ?case
    unfolding upt using k by (simp add: ih level_anchors_rows)
qed

lemma length_concat_rows:
  assumes "\<forall>a\<in>set rows. length a = n"
  shows "length (concat rows) = length rows * n"
  using assms by (induction rows) simp_all

lemma chunks_concat:
  assumes "\<forall>a\<in>set rows. length a = n"
  shows "map (\<lambda>r. take n (drop (r * n) (concat rows))) [0..<length rows] = rows"
  using assms
proof (induction rows)
  case Nil
  then show ?case by simp
next
  case (Cons a rows)
  have a: "length a = n" using Cons.prems by simp
  have "map (\<lambda>r. take n (drop (r * n) (concat (a # rows)))) [0..<length (a # rows)]
      = take n (concat (a # rows))
        # map (\<lambda>r. take n (drop (Suc r * n) (concat (a # rows)))) [0..<length rows]"
    by (simp add: upt_conv_Cons map_Suc_upt[symmetric] del: upt_Suc)
  also have "take n (concat (a # rows)) = a" using a by simp
  also have "map (\<lambda>r. take n (drop (Suc r * n) (concat (a # rows)))) [0..<length rows]
      = map (\<lambda>r. take n (drop (r * n) (concat rows))) [0..<length rows]"
    using a by simp
  also have "\<dots> = rows" using Cons by simp
  finally show ?case .
qed

lemma view_rows_concat:
  assumes "\<forall>a\<in>set rows. length a = n" "0 < n"
  shows "view_rows n (concat rows) = Inr rows"
  using assms(2)
  by (simp add: view_rows_def length_concat_rows[OF assms(1)] chunks_concat[OF assms(1)])

lemma view_batch_concat:
  assumes "\<forall>a\<in>set rows. length a = n" "rows \<noteq> []"
  shows "view_batch (length rows) (concat rows) = Inr rows"
  using assms(2)
  by (simp add: view_batch_def length_concat_rows[OF assms(1)] chunks_concat[OF assms(1)])


lemma zip_upt_nth: "zip [0..<length xs] xs = map (\<lambda>k. (k, xs ! k)) [0..<length xs]"
  by (rule nth_equalityI) simp_all

lemma py_ceil_div_nonneg:
  assumes "0 \<le> a" "0 < b"
  shows "0 \<le> py_ceil_div a b"
proof -
  have "0 \<le> real_of_int a / real_of_int b" using assms by simp
  then have "- 1 < real_of_int a / real_of_int b" by linarith
  then show ?thesis by (simp add: py_ceil_div_def)
qed

lemma clamp01_range: "0 \<le> clamp01 x \<and> clamp01 x \<le> 1"
  by (simp add: clamp01_def)

lemma example_anchor_count: "anchor_count (example_cfg t) = 8"
proof -
  have "py_ceil_div 16 8 = 2" "py_ceil_div 12 8 = 2"
    by (simp_all add: py_ceil_div_def) 
  then show ?thesis
    by (simp add: anchor_count_def example_cfg_def)
qed

text \<open>
  Claim C9. For an \<open>H\<close> by \<open>W\<close> image, positive strides and a list of anchor sizes
  for every stride, \<open>generate_anchors\<close> returns exactly
  \<open>sum over the levels k of ceil(H / step_k) * ceil(W / step_k) * len(min_sizes[k])\<close>
  anchors; each is the four numbers \<open>(center_x, center_y, width, height)\<close> of a cell
  \<open>(i, j)\<close> of a level and one of its sizes, divided by the image width and height, and
  clamped when \<open>clip\<close> is set; with \<open>clip\<close> every coordinate is in \<open>[0, 1]\<close>.
\<close>

theorem generate_anchors_count:
  assumes "0 < fst (DATA_image_size c)" "0 < snd (DATA_image_size c)"
    and "\<forall>step\<in>set (MODEL_strides c). 0 < step"
    and "length (MODEL_strides c) \<le> length (MODEL_anchor_sizes c)"
  shows "\<exists>self out. AnchorGenerator_init c = Inr self \<and> generate_anchors self = Inr out
      \<and> int (length out) = anchor_count c
      \<and> (\<forall>a\<in>set out. \<exists>k i j m.
            k < length (MODEL_strides c) \<and> m \<in> set (MODEL_anchor_sizes c ! k)
            \<and> int i < py_ceil_div (fst (DATA_image_size c)) (MODEL_strides c ! k)
            \<and> int j < py_ceil_div (snd (DATA_image_size c)) (MODEL_strides c ! k)
            \<and> a = map (if TRAIN_clip_box c then clamp01 else id)
                  [(real j + 0.5) * real_of_int (MODEL_strides c ! k)
                     / real_of_int (snd (DATA_image_size c)),
                   (real i + 0.5) * real_of_int (MODEL_strides c ! k)
                     / real_of_int (fst (DATA_image_size c)),
                   real_of_int m / real_of_int (snd (DATA_image_size c)),
                   real_of_int m / real_of_int (fst (DATA_image_size c))])
      \<and> (TRAIN_clip_box c \<longrightarrow> (\<forall>a\<in>set out. \<forall>v\<in>set a. 0 \<le> v \<and> v \<le> 1))"
proof -
  define H W where "H = fst (DATA_image_size c)" and "W = snd (DATA_image_size c)"
  define n where "n = length (MODEL_strides c)"
  define fm where "fm = (\<lambda>step. (py_ceil_div H step, py_ceil_div W step))"
  define self where "self =
        \<lparr>min_sizes = MODEL_anchor_sizes c, steps = MODEL_strides c, clip = TRAIN_clip_box c,
         image_size = DATA_image_size c, feature_maps = map fm (MODEL_strides c),
         name = ''s'', ag_use_gpu = TRAIN_use_gpu c\<rparr>"
  define rows where "rows = concat (map (\<lambda>k. level_rows self k (fm (MODEL_strides c ! k))) [0..<n])"
  have init: "AnchorGenerator_init c = Inr self"
    using assms(3) by (auto simp: AnchorGenerator_init_def self_def fm_def H_def W_def)
  have fields: "min_sizes self = MODEL_anchor_sizes c" "steps self = MODEL_strides c"
    "clip self = TRAIN_clip_box c" "image_size self = (H, W)"
    "feature_maps self = map fm (MODEL_strides c)"
    by (simp_all add: self_def H_def W_def)
  have step_pos: "0 < MODEL_strides c ! k" if "k < n" for k
    using that assms(3) by (simp add: n_def)
  have zip_rows: "map2 (level_rows self) [0..<0 + length (feature_maps self)] (feature_maps self)
      = map (\<lambda>k. level_rows self k (fm (MODEL_strides c ! k))) [0..<n]"
    using zip_upt_nth[of "feature_maps self"] by (simp add: fields n_def)
  have afrom: "anchors_from self 0 (feature_maps self) = Inr (concat rows)"
    using anchors_from_rows[of 0 "feature_maps self" self] assms(4)
    unfolding zip_rows rows_def by (simp add: fields)
  have len4: "\<forall>a\<in>set rows. length a = 4"
    by (auto simp: rows_def set_level_rows length_anchor_at)
  have len_rows: "int (length rows) = anchor_count c"
  proof -
    have "length rows = (\<Sum>k\<leftarrow>[0..<n]. nat (py_ceil_div H (MODEL_strides c ! k))
              * nat (py_ceil_div W (MODEL_strides c ! k)) * length (MODEL_anchor_sizes c ! k))"
      by (simp add: rows_def length_concat comp_def length_level_rows fm_def fields)
    also have "\<dots> = (\<Sum>k<n. nat (py_ceil_div H (MODEL_strides c ! k))
              * nat (py_ceil_div W (MODEL_strides c ! k)) * length (MODEL_anchor_sizes c ! k))"
      by (simp add: interv_sum_list_conv_sum_set_nat atLeast0LessThan)
    finally have "int (length rows) = (\<Sum>k<n. int (nat (py_ceil_div H (MODEL_strides c ! k))
              * nat (py_ceil_div W (MODEL_strides c ! k)) * length (MODEL_anchor_sizes c ! k)))"
      by simp
    also have "\<dots> = (\<Sum>k<n. py_ceil_div H (MODEL_strides c ! k)
              * py_ceil_div W (MODEL_strides c ! k) * int (length (MODEL_anchor_sizes c ! k)))"
    proof (rule sum.cong)
      fix k assume "k \<in> {..<n}"
      then have k: "0 < MODEL_strides c ! k" using step_pos by simp
      have "0 \<le> py_ceil_div H (MODEL_strides c ! k)" "0 \<le> py_ceil_div W (MODEL_strides c ! k)"
        using assms(1,2) k by (simp_all add: py_ceil_div_nonneg H_def W_def)
      then show "int (nat (py_ceil_div H (MODEL_strides c ! k))
              * nat (py_ceil_div W (MODEL_strides c ! k)) * length (MODEL_anchor_sizes c ! k))
          = py_ceil_div H (MODEL_strides c ! k)
              * py_ceil_div W (MODEL_strides c ! k) * int (length (MODEL_anchor_sizes c ! k))"
        by simp
    qed simp
    finally show ?thesis by (simp add: anchor_count_def n_def H_def W_def)
  qed
  define out where "out = (if clip self then map (map clamp01) rows else rows)"
  have gen: "generate_anchors self = Inr out"
    by (simp add: generate_anchors_def afrom view_rows_concat[OF len4] out_def)
  have out_map: "out = map (map (if TRAIN_clip_box c then clamp01 else id)) rows"
    by (simp add: out_def fields)
  have len_out: "int (length out) = anchor_count c"
    by (simp add: out_map len_rows)
  have mem: "\<exists>k i j m.
            k < length (MODEL_strides c) \<and> m \<in> set (MODEL_anchor_sizes c ! k)
            \<and> int i < py_ceil_div (fst (DATA_image_size c)) (MODEL_strides c ! k)
            \<and> int j < py_ceil_div (snd (DATA_image_size c)) (MODEL_strides c ! k)
            \<and> a = map (if TRAIN_clip_box c then clamp01 else id)
                  [(real j + 0.5) * real_of_int (MODEL_strides c ! k)
                     / real_of_int (snd (DATA_image_size c)),
                   (real i + 0.5) * real_of_int (MODEL_strides c ! k)
                     / real_of_int (fst (DATA_image_size c)),
                   real_of_int m / real_of_int (snd (DATA_image_size c)),
                   real_of_int m / real_of_int (fst (DATA_image_size c))]"
    if "a \<in> set out" for a
  proof -
    from that obtain r where r: "r \<in> set rows" "a = map (if TRAIN_clip_box c then clamp01 else id) r"
      unfolding out_map by auto
    from r(1) obtain k where k: "k < n" "r \<in> set (level_rows self k (fm (MODEL_strides c ! k)))"
      by (auto simp: rows_def)
    from k(2) obtain i j m where ijm: "i < nat (py_ceil_div H (MODEL_strides c ! k))"
      "j < nat (py_ceil_div W (MODEL_strides c ! k))" "m \<in> set (MODEL_anchor_sizes c ! k)"
      "r = anchor_at self k i j m"
      unfolding set_level_rows by (auto simp: fm_def fields)
    have "int i < py_ceil_div H (MODEL_strides c ! k)" "int j < py_ceil_div W (MODEL_strides c ! k)"
      using ijm(1,2) by linarith+
    moreover have "r = [(real j + 0.5) * real_of_int (MODEL_strides c ! k) / real_of_int W,
                   (real i + 0.5) * real_of_int (MODEL_strides c ! k) / real_of_int H,
                   real_of_int m / real_of_int W, real_of_int m / real_of_int H]"
      by (simp add: ijm(4) anchor_at_def fields Let_def)
    ultimately show ?thesis
      using k(1) ijm(3) r(2) unfolding n_def H_def W_def by blast
  qed
  have clipped: "\<forall>a\<in>set out. \<forall>v\<in>set a. 0 \<le> v \<and> v \<le> 1" if "TRAIN_clip_box c"
    using that by (auto simp: out_map clamp01_range)
  show ?thesis
    using init gen len_out mem clipped by blast
qed


theorem generate_anchors_count_witness:
  "\<exists>self out. AnchorGenerator_init (example_cfg ''OHEM'') = Inr self
      \<and> generate_anchors self = Inr out
      \<and> int (length out) = 8
      \<and> (\<forall>a\<in>set out. \<forall>v\<in>set a. 0 \<le> v \<and> v \<le> 1)"
proof -
  have h: "0 < fst (DATA_image_size (example_cfg ''OHEM''))"
    "0 < snd (DATA_image_size (example_cfg ''OHEM''))"
    "\<forall>step\<in>set (MODEL_strides (example_cfg ''OHEM'')). 0 < step"
    "length (MODEL_strides (example_cfg ''OHEM'')) \<le> length (MODEL_anchor_sizes (example_cfg ''OHEM''))"
    "TRAIN_clip_box (example_cfg ''OHEM'')"
    by (simp_all add: example_cfg_def)
  show ?thesis
    using generate_anchors_count[OF h(1-4)] h(5) by (simp add: example_anchor_count) blast
qed

section \<open>Boolean masks\<close>

lemma mask_select_row_Cons:
  "mask_select_row (b # m) (x # xs) = (if b then x # mask_select_row m xs else mask_select_row m xs)"
  by (simp add: mask_select_row_def)

lemma mask_select_row_Nil: "mask_select_row [] xs = []" "mask_select_row m [] = []"
  by (simp_all add: mask_select_row_def)

lemma mask_select_Cons:
  "mask_select (m # masks) (xs # xss) = mask_select_row m xs @ mask_select masks xss"
  by (simp add: mask_select_def)

lemma mask_select_Nil: "mask_select [] xss = []" "mask_select masks [] = []"
  by (simp_all add: mask_select_def)

text \<open>The smooth-L1 sum of one anchor: its prediction against its target.\<close>

lemma row_selected_sum:
  assumes "list_all2 (\<lambda>p g. length p = length g) ps gs" "length m = length ps"
  shows "length (concat (mask_select_row m ps)) = length (concat (mask_select_row m gs))
     \<and> sum_list (map2 h (concat (mask_select_row m ps)) (concat (mask_select_row m gs)))
       = (\<Sum>(b, p, g)\<leftarrow>zip m (zip ps gs). if b then sum_list (map2 h p g) else (0::real))"
  using assms
proof (induction m arbitrary: ps gs)
  case Nil
  then show ?case by (simp add: mask_select_row_Nil)
next
  case (Cons b m)
  from Cons.prems obtain p ps' g gs' where eq: "ps = p # ps'" "gs = g # gs'"
    and pg: "length p = length g" and rest: "list_all2 (\<lambda>p g. length p = length g) ps' gs'"
    and len: "length m = length ps'"
    by (cases ps; cases gs) auto
  note ih = Cons.IH[OF rest len]
  show ?case
    using ih pg by (simp add: eq mask_select_row_Cons)
qed

lemma batch_selected_sum:
  assumes "list_all2 (list_all2 (\<lambda>p g. length p = length g)) pred gt"
    "list_all2 (\<lambda>m ps. length m = length ps) masks pred"
  shows "length (concat (mask_select masks pred)) = length (concat (mask_select masks gt))
     \<and> sum_list (map2 h (concat (mask_select masks pred)) (concat (mask_select masks gt)))
       = (\<Sum>(m, ps, gs)\<leftarrow>zip masks (zip pred gt).
            \<Sum>(b, p, g)\<leftarrow>zip m (zip ps gs). if b then sum_list (map2 h p g) else (0::real))"
  using assms
proof (induction masks arbitrary: pred gt)
  case Nil
  then show ?case by (simp add: mask_select_Nil)
next
  case (Cons m masks)
  from Cons.prems obtain ps pred' gs gt' where eq: "pred = ps # pred'" "gt = gs # gt'"
    and row: "list_all2 (\<lambda>p g. length p = length g) ps gs" "length m = length ps"
    and rest: "list_all2 (list_all2 (\<lambda>p g. length p = length g)) pred' gt'"
      "list_all2 (\<lambda>m ps. length m = length ps) masks pred'"
    by (cases pred; cases gt) auto
  note ih = Cons.IH[OF rest]
  note r = row_selected_sum[OF row, of h]
  show ?case
    using ih r by (simp add: eq mask_select_Cons)
qed

lemma sum_list_zip3_nth:
  assumes "length xs = length ys" "length ys = length zs"
  shows "(\<Sum>(x, y, z)\<leftarrow>zip xs (zip ys zs). F x y z) = (\<Sum>i<length xs. (F (xs ! i) (ys ! i) (zs ! i) :: real))"
proof -
  have "(\<Sum>(x, y, z)\<leftarrow>zip xs (zip ys zs). F x y z)
      = (\<Sum>i = 0..<length (zip xs (zip ys zs)). (map (\<lambda>(x, y, z). F x y z) (zip xs (zip ys zs))) ! i)"
    by (simp add: sum_list_sum_nth)
  also have "\<dots> = (\<Sum>i = 0..<length xs. F (xs ! i) (ys ! i) (zs ! i))"
    using assms by (intro sum.cong) simp_all
  finally show ?thesis by (simp add: atLeast0LessThan)
qed

lemma sum_list_map2_nth:
  assumes "length xs = length ys"
  shows "sum_list (map2 h xs ys) = (\<Sum>j<length xs. (h (xs ! j) (ys ! j) :: real))"
proof -
  have "sum_list (map2 h xs ys) = (\<Sum>i = 0..<length (zip xs ys). (map2 h xs ys) ! i)"
    by (simp add: sum_list_sum_nth)
  also have "\<dots> = (\<Sum>i = 0..<length xs. h (xs ! i) (ys ! i))"
    using assms by (intro sum.cong) simp_all
  finally show ?thesis by (simp add: atLeast0LessThan)
qed

lemma length_filter_id_map: "length (filter id (map P l)) = length (filter P l)"
  by (induction l) simp_all

lemma mask_count:
  "sum_list (map (\<lambda>m. int (length (filter id m))) (map (map P) labels))
     = int (length (filter P (concat labels)))"
  by (induction labels) (simp_all add: length_filter_id_map del: id_apply)

lemma shape3_all2:
  assumes "shape3 labels n pred" "shape3 labels n gt"
  shows "list_all2 (list_all2 (\<lambda>p g. length p = length g)) pred gt"
    "list_all2 (\<lambda>m ps. length m = length ps) (map (map P) labels) pred"
  using assms by (auto simp: shape3_def list_all2_conv_all_nth)

text \<open>The masked loss the code computes is the sum over the selected anchors.\<close>

lemma masked_loss_eq:
  assumes "shape3 labels n pred" "shape3 labels n gt"
  shows "smooth_l1_loss_sum (mask_select (map (map P) labels) pred) (mask_select (map (map P) labels) gt)
           / max (real_of_int (sum_list (map (\<lambda>m. int (length (filter id m))) (map (map P) labels)))) 1
         = masked_smooth_l1 P labels pred gt"
proof -
  let ?h = "\<lambda>p g. smooth_l1_elem (p - g)"
  have lens: "length pred = length labels" "length gt = length labels"
    "\<And>b. b < length labels \<Longrightarrow> length (pred ! b) = length (labels ! b)"
    "\<And>b. b < length labels \<Longrightarrow> length (gt ! b) = length (labels ! b)"
    "\<And>b a. b < length labels \<Longrightarrow> a < length (labels ! b) \<Longrightarrow> length (pred ! b ! a) = n"
    "\<And>b a. b < length labels \<Longrightarrow> a < length (labels ! b) \<Longrightarrow> length (gt ! b ! a) = n"
    using assms by (simp_all add: shape3_def)
  have "smooth_l1_loss_sum (mask_select (map (map P) labels) pred) (mask_select (map (map P) labels) gt)
      = (\<Sum>(m, ps, gs)\<leftarrow>zip (map (map P) labels) (zip pred gt).
            \<Sum>(b, p, g)\<leftarrow>zip m (zip ps gs). if b then sum_list (map2 ?h p g) else 0)"
    unfolding smooth_l1_loss_sum_def
    using batch_selected_sum[OF shape3_all2(1)[OF assms] shape3_all2(2)[OF assms, of P], of ?h]
    by simp
  also have "\<dots> = (\<Sum>b<length labels.
            \<Sum>(c, p, g)\<leftarrow>zip (map P (labels ! b)) (zip (pred ! b) (gt ! b)).
               if c then sum_list (map2 ?h p g) else 0)"
    using sum_list_zip3_nth[of "map (map P) labels" pred gt
        "\<lambda>m ps gs. \<Sum>(b, p, g)\<leftarrow>zip m (zip ps gs). if b then sum_list (map2 ?h p g) else 0"]
    by (simp add: lens(1,2))
  also have "\<dots> = (\<Sum>b<length labels. \<Sum>a<length (labels ! b).
        if P (labels ! b ! a)
        then \<Sum>j<length (pred ! b ! a). smooth_l1_elem (pred ! b ! a ! j - gt ! b ! a ! j)
        else 0)"
  proof (rule sum.cong)
    fix b assume "b \<in> {..<length labels}"
    then have b: "b < length labels" by simp
    have "(\<Sum>(c, p, g)\<leftarrow>zip (map P (labels ! b)) (zip (pred ! b) (gt ! b)).
               if c then sum_list (map2 ?h p g) else 0)
        = (\<Sum>a<length (labels ! b). if P (labels ! b ! a)
             then sum_list (map2 ?h (pred ! b ! a) (gt ! b ! a)) else 0)"
      using sum_list_zip3_nth[of "map P (labels ! b)" "pred ! b" "gt ! b"
          "\<lambda>c p g. if c then sum_list (map2 ?h p g) else 0"]
      by (simp add: lens(3,4)[OF b])
    also have "\<dots> = (\<Sum>a<length (labels ! b). if P (labels ! b ! a)
        then \<Sum>j<length (pred ! b ! a). smooth_l1_elem (pred ! b ! a ! j - gt ! b ! a ! j)
        else 0)"
    proof (rule sum.cong)
      fix a assume "a \<in> {..<length (labels ! b)}"
      then have a: "a < length (labels ! b)" by simp
      have "length (pred ! b ! a) = length (gt ! b ! a)" using lens(5,6)[OF b a] by simp
      from sum_list_map2_nth[OF this, of ?h]
      show "(if P (labels ! b ! a) then sum_list (map2 ?h (pred ! b ! a) (gt ! b ! a)) else 0)
        = (if P (labels ! b ! a)
           then \<Sum>j<length (pred ! b ! a). smooth_l1_elem (pred ! b ! a ! j - gt ! b ! a ! j)
           else 0)" by simp
    qed simp
    finally show "(\<Sum>(c, p, g)\<leftarrow>zip (map P (labels ! b)) (zip (pred ! b) (gt ! b)).
               if c then sum_list (map2 ?h p g) else 0)
        = (\<Sum>a<length (labels ! b). if P (labels ! b ! a)
        then \<Sum>j<length (pred ! b ! a). smooth_l1_elem (pred ! b ! a ! j - gt ! b ! a ! j)
        else 0)" .
  qed simp
  finally have eq: "smooth_l1_loss_sum (mask_select (map (map P) labels) pred)
      (mask_select (map (map P) labels) gt)
    = (\<Sum>b<length labels. \<Sum>a<length (labels ! b).
        if P (labels ! b ! a)
        then \<Sum>j<length (pred ! b ! a). smooth_l1_elem (pred ! b ! a ! j - gt ! b ! a ! j)
        else 0)" .
  show ?thesis
    unfolding masked_smooth_l1_def mask_count eq by simp
qed

text \<open>Expanded masks and boolean indexing on tensors whose shapes fit.\<close>

lemma mask_select_row_const:
  "length v = length v' \<Longrightarrow> mask_select_row (map (\<lambda>_. b) v) v' = (if b then v' else [])"
  by (cases b; induction v v' rule: list_induct2)
     (simp_all add: mask_select_row_Cons mask_select_row_Nil)

lemma mask_select_row_all_false:
  "\<forall>b\<in>set i. \<not> b \<Longrightarrow> mask_select_row i v = []"
proof -
  assume a: "\<forall>b\<in>set i. \<not> b"
  have "filter fst (zip i v) = []"
    using a by (auto simp: filter_empty_conv dest!: set_zip_leftD)
  then show ?thesis by (simp add: mask_select_row_def)
qed

lemma expand_row_select:
  assumes "length m = length r" "list_all2 (\<lambda>v w. length v = length w) r r'"
  shows "concat (map2 mask_select_row (map2 (\<lambda>b v. map (\<lambda>_. b) v) m r) r')
           = concat (mask_select_row m r')"
  using assms
proof (induction m arbitrary: r r')
  case Nil
  then show ?case by (simp add: mask_select_row_Nil)
next
  case (Cons b m)
  from Cons.prems obtain v r0 v' r0' where eq: "r = v # r0" "r' = v' # r0'"
    and l: "length v = length v'" "length m = length r0"
      "list_all2 (\<lambda>v w. length v = length w) r0 r0'"
    by (cases r; cases r') auto
  show ?case
    using Cons.IH[OF l(2,3)] by (simp add: eq mask_select_row_Cons mask_select_row_const[OF l(1)])
qed

lemma expand_select:
  assumes "list_all2 (\<lambda>m r. length m = length r) msk t"
    "list_all2 (list_all2 (\<lambda>v w. length v = length w)) t t'"
  shows "concat (concat (map2 (map2 mask_select_row) (expand_mask msk t) t'))
           = concat (mask_select msk t')"
  using assms
proof (induction msk arbitrary: t t')
  case Nil
  then show ?case by (simp add: expand_mask_def mask_select_Nil)
next
  case (Cons m msk)
  from Cons.prems obtain r t0 r' t0' where eq: "t = r # t0" "t' = r' # t0'"
    and l: "length m = length r" "list_all2 (\<lambda>v w. length v = length w) r r'"
      "list_all2 (\<lambda>m r. length m = length r) msk t0"
      "list_all2 (list_all2 (\<lambda>v w. length v = length w)) t0 t0'"
    by (cases t; cases t') auto
  have ih: "concat (concat (map2 (map2 mask_select_row) (expand_mask msk t0) t0'))
           = concat (mask_select msk t0')"
    by (rule Cons.IH[OF l(3,4)])
  show ?case
    using ih expand_row_select[OF l(1,2)]
    by (simp add: eq expand_mask_def mask_select_Cons)
qed

lemma expand_mask_shape:
  assumes "list_all2 (\<lambda>m r. length m = length r) msk t"
    "list_all2 (list_all2 (\<lambda>v w. length v = length w)) t t'"
  shows "list_all2 (list_all2 (\<lambda>i v. length i = length v)) (expand_mask msk t) t'"
  using assms
  by (auto simp: list_all2_conv_all_nth expand_mask_def)

lemma bool_index_expand:
  assumes "list_all2 (\<lambda>m r. length m = length r) msk t"
    "list_all2 (list_all2 (\<lambda>v w. length v = length w)) t t'"
  shows "bool_index t' (expand_mask msk t) = Inr (concat (mask_select msk t'))"
  by (simp add: bool_index_def expand_mask_shape[OF assms] expand_select[OF assms])

lemma map2_or_const: "map2 (\<or>) (map (\<lambda>_. b1) v) (map (\<lambda>_. b2) v) = map (\<lambda>_. b1 \<or> b2) v"
  by (induction v) simp_all

lemma expand_mask_or:
  assumes "list_all2 (\<lambda>m r. length m = length r) m1 t"
    "list_all2 (\<lambda>m r. length m = length r) m2 t"
  shows "map2 (map2 (map2 (\<or>))) (expand_mask m1 t) (expand_mask m2 t)
           = expand_mask (map2 (map2 (\<or>)) m1 m2) t"
proof -
  have l: "length m1 = length t" "length m2 = length t"
    "\<And>b. b < length t \<Longrightarrow> length (m1 ! b) = length (t ! b)"
    "\<And>b. b < length t \<Longrightarrow> length (m2 ! b) = length (t ! b)"
    using assms by (auto simp: list_all2_conv_all_nth)
  show ?thesis
    unfolding expand_mask_def
  proof (rule nth_equalityI)
    show "length (map2 (map2 (map2 (\<or>))) (map2 (\<lambda>m r. map2 (\<lambda>b v. map (\<lambda>_. b) v) m r) m1 t)
                   (map2 (\<lambda>m r. map2 (\<lambda>b v. map (\<lambda>_. b) v) m r) m2 t))
        = length (map2 (\<lambda>m r. map2 (\<lambda>b v. map (\<lambda>_. b) v) m r) (map2 (map2 (\<or>)) m1 m2) t)"
      by (simp add: l)
  next
    fix b assume "b < length (map2 (map2 (map2 (\<or>))) (map2 (\<lambda>m r. map2 (\<lambda>b v. map (\<lambda>_. b) v) m r) m1 t)
                   (map2 (\<lambda>m r. map2 (\<lambda>b v. map (\<lambda>_. b) v) m r) m2 t))"
    then have b: "b < length t" by (simp add: l)
    have "map2 (map2 (\<or>)) (map2 (\<lambda>b v. map (\<lambda>_. b) v) (m1 ! b) (t ! b))
              (map2 (\<lambda>b v. map (\<lambda>_. b) v) (m2 ! b) (t ! b))
        = map2 (\<lambda>b v. map (\<lambda>_. b) v) (map2 (\<or>) (m1 ! b) (m2 ! b)) (t ! b)"
      by (rule nth_equalityI) (simp_all add: l(3,4)[OF b] map2_or_const)
    then show "map2 (map2 (map2 (\<or>))) (map2 (\<lambda>m r. map2 (\<lambda>b v. map (\<lambda>_. b) v) m r) m1 t)
                   (map2 (\<lambda>m r. map2 (\<lambda>b v. map (\<lambda>_. b) v) m r) m2 t) ! b
        = map2 (\<lambda>m r. map2 (\<lambda>b v. map (\<lambda>_. b) v) m r) (map2 (map2 (\<or>)) m1 m2) t ! b"
      using b by (simp add: l)
  qed
qed

lemma tensor3_shape3:
  assumes "tensor2 B A labels" "tensor3 B A n t"
  shows "shape3 labels n t"
proof -
  have l: "length labels = B" "length t = B" using assms by (simp_all add: tensor2_def tensor3_def)
  have rows: "length (labels ! b) = A \<and> length (t ! b) = A
      \<and> (\<forall>a<A. length (t ! b ! a) = n)" if "b < B" for b
  proof -
    have "labels ! b \<in> set labels" "t ! b \<in> set t" using that l by simp_all
    then have 1: "length (labels ! b) = A" "length (t ! b) = A"
      and 2: "\<forall>v\<in>set (t ! b). length v = n"
      using assms by (simp_all add: tensor2_def tensor3_def)
    have "length (t ! b ! a) = n" if "a < A" for a
      using 2 that 1(2) by (metis nth_mem)
    then show ?thesis using 1 by simp
  qed
  show ?thesis using l rows by (simp add: shape3_def)
qed

lemma shape3_expand:
  assumes "shape3 labels n t"
  shows "list_all2 (\<lambda>m r. length m = length r) (map (map P) labels) t"
  using assms by (auto simp: shape3_def list_all2_conv_all_nth)

lemma shape3_same:
  assumes "shape3 labels n t" "shape3 labels n t'"
  shows "list_all2 (list_all2 (\<lambda>v w. length v = length w)) t t'"
  using assms by (auto simp: shape3_def list_all2_conv_all_nth)

lemma shape3_rows:
  assumes "shape3 labels n t"
  shows "\<forall>v\<in>set (concat t). length v = n"
proof
  fix v assume "v \<in> set (concat t)"
  then obtain r where r: "r \<in> set t" "v \<in> set r" by auto
  then obtain b where b: "b < length t" "r = t ! b" by (auto simp: in_set_conv_nth)
  with r(2) obtain a where a: "a < length (t ! b)" "v = t ! b ! a" by (auto simp: in_set_conv_nth)
  show "length v = n" using assms b a by (simp add: shape3_def)
qed

text \<open>
  Expansion and broadcasting: on tensors of equal shapes nothing is repeated, and the
  entries of an expanded mask are entries of the mask.
\<close>

lemma sequence_err_map:
  assumes "\<forall>x\<in>set xs. f x = Inr (g x)"
  shows "sequence_err (map f xs) = Inr (map g xs)"
  using assms by (induction xs) simp_all

lemma expand_dim_same: "length xs = n \<Longrightarrow> expand_dim n xs = Inr xs"
  by (simp add: expand_dim_def)

lemma expand_rows_same:
  assumes "list_all2 (\<lambda>m r. length m = length r) msk t"
  shows "expand_rows msk t = Inr msk"
proof -
  have l: "length msk = length t" using assms by (rule list_all2_lengthD)
  have "sequence_err (map2 (\<lambda>m r. expand_dim (length r) m) msk t) = Inr msk"
    using assms by (induction rule: list_all2_induct) (simp_all add: expand_dim_def)
  then show ?thesis by (simp add: expand_rows_def expand_dim_same[OF l])
qed

lemma expand_as_same:
  assumes "list_all2 (\<lambda>m r. length m = length r) msk t"
  shows "expand_as msk t = Inr (expand_mask msk t)"
  by (simp add: expand_as_def expand_rows_same[OF assms])

lemma broadcast2_or_same:
  assumes "length p = length n"
  shows "broadcast2 (\<lambda>a b. Inr (a \<or> b)) p n = Inr (map2 (\<or>) p n)"
proof -
  have "sequence_err (map (\<lambda>(a, b). Inr (a \<or> b)) (zip p n)) = Inr (map (\<lambda>(a, b). a \<or> b) (zip p n))"
    by (rule sequence_err_map) auto
  then show ?thesis using assms by (simp add: broadcast2_def)
qed

lemma add_masks_same:
  assumes "list_all2 (\<lambda>p n. length p = length n) p n"
  shows "add_masks p n = Inr (map2 (map2 (\<or>)) p n)"
proof -
  have l: "length p = length n" using assms by (rule list_all2_lengthD)
  have "sequence_err (map (\<lambda>(a, b). broadcast2 (\<lambda>a b. Inr (a \<or> b)) a b) (zip p n))
          = Inr (map (\<lambda>(a, b). map2 (\<or>) a b) (zip p n))"
  proof (rule sequence_err_map, rule ballI)
    fix x assume "x \<in> set (zip p n)"
    then obtain a b where x: "x = (a, b)" and "length a = length b"
      using assms by (auto simp: list_all2_iff)
    then show "(\<lambda>(a, b). broadcast2 (\<lambda>a b. Inr (a \<or> b)) a b) x = Inr ((\<lambda>(a, b). map2 (\<or>) a b) x)"
      by (simp add: broadcast2_or_same)
  qed
  moreover have "broadcast2 f p n = sequence_err (map2 f p n)"
    for f :: "bool list \<Rightarrow> bool list \<Rightarrow> error + bool list"
    using l by (simp add: broadcast2_def)
  ultimately show ?thesis by (simp only: add_masks_def)
qed

lemma expand_dim_set:
  assumes "expand_dim n xs = Inr ys"
  shows "set ys \<subseteq> set xs"
proof (cases "length xs = n")
  case True
  then show ?thesis using assms by (simp add: expand_dim_def)
next
  case False
  with assms have l: "length xs = 1" and ys: "ys = replicate n (hd xs)"
    by (auto simp: expand_dim_def split: if_splits)
  from l have "hd xs \<in> set xs" by (cases xs) simp_all
  then show ?thesis by (auto simp: ys)
qed

lemma sequence_err_expand_set:
  assumes "sequence_err (map2 (\<lambda>m r. expand_dim (length r) m) rows t) = Inr out"
  shows "\<forall>r\<in>set out. \<exists>m\<in>set rows. set r \<subseteq> set m"
  using assms
proof (induction rows arbitrary: t out)
  case Nil
  then show ?case by simp
next
  case (Cons m rows)
  show ?case
  proof (cases t)
    case Nil
    with Cons.prems show ?thesis by simp
  next
    case (Cons r t')
    with Cons.prems obtain m' out' where
      m': "expand_dim (length r) m = Inr m'"
      and o: "sequence_err (map2 (\<lambda>m r. expand_dim (length r) m) rows t') = Inr out'"
      and out: "out = m' # out'"
      by (auto split: sum.splits)
    from Cons.IH[OF o] expand_dim_set[OF m'] show ?thesis by (auto simp: out)
  qed
qed

lemma expand_rows_set:
  assumes "expand_rows msk t = Inr rows"
  shows "\<forall>r\<in>set rows. \<exists>m\<in>set msk. set r \<subseteq> set m"
proof -
  from assms obtain rows' where r': "expand_dim (length t) msk = Inr rows'"
    and s: "sequence_err (map2 (\<lambda>m r. expand_dim (length r) m) rows' t) = Inr rows"
    by (auto simp: expand_rows_def bind_err_def split: sum.splits)
  from sequence_err_expand_set[OF s] expand_dim_set[OF r'] show ?thesis by blast
qed

lemma expand_select_none:
  assumes "\<forall>m\<in>set msk. \<forall>b\<in>set m. \<not> b"
  shows "concat (concat (map2 (map2 mask_select_row) (expand_mask msk t) t')) = []"
proof -
  have rows: "\<forall>i\<in>set (concat (expand_mask msk t)). \<forall>b\<in>set i. \<not> b"
  proof (intro ballI)
    fix i b assume i: "i \<in> set (concat (expand_mask msk t))" and b: "b \<in> set i"
    from i obtain row where row: "row \<in> set (expand_mask msk t)" "i \<in> set row"
      by auto
    from row(1) obtain m r where mr: "(m, r) \<in> set (zip msk t)"
      "row = map2 (\<lambda>b v. map (\<lambda>_. b) v) m r"
      by (auto simp: expand_mask_def)
    from row(2) mr(2) obtain c v where cv: "(c, v) \<in> set (zip m r)" "i = map (\<lambda>_. c) v"
      by auto
    have "m \<in> set msk" using mr(1) by (rule set_zip_leftD)
    moreover have "c \<in> set m" using cv(1) by (rule set_zip_leftD)
    ultimately have "\<not> c" using assms by blast
    moreover have "b = c" using b cv(2) by auto
    ultimately show "\<not> b" by simp
  qed
  have "\<forall>x\<in>set (concat (map2 (map2 mask_select_row) (expand_mask msk t) t')). x = []"
  proof
    fix x assume "x \<in> set (concat (map2 (map2 mask_select_row) (expand_mask msk t) t'))"
    then obtain ir r' where a: "(ir, r') \<in> set (zip (expand_mask msk t) t')"
      "x \<in> set (map2 mask_select_row ir r')" by auto
    then obtain i v where iv: "(i, v) \<in> set (zip ir r')" "x = mask_select_row i v" by auto
    have "ir \<in> set (expand_mask msk t)" using a(1) by (rule set_zip_leftD)
    moreover have "i \<in> set ir" using iv(1) by (rule set_zip_leftD)
    ultimately have "i \<in> set (concat (expand_mask msk t))" by auto
    with rows have "\<forall>b\<in>set i. \<not> b" by blast
    then show "x = []" unfolding iv(2) by (rule mask_select_row_all_false)
  qed
  then show ?thesis by (simp add: concat_eq_Nil_conv)
qed

section \<open>OHEM: the hard negatives\<close>

text \<open>The ranks: the second sort inverts the permutation the first sort returns.\<close>

lemma argsort_asc_inverse:
  assumes "distinct idx" "set idx = {0..<length idx}"
  shows "length (argsort_asc idx) = length idx"
    and "\<And>i. i < length idx \<Longrightarrow> argsort_asc idx ! i < length idx \<and> idx ! (argsort_asc idx ! i) = i"
    and "\<And>p. p < length idx \<Longrightarrow> argsort_asc idx ! (idx ! p) = p"
proof -
  let ?r = "argsort_asc idx" and ?A = "length idx"
  show len: "length ?r = ?A" by (simp add: argsort_asc_def)
  have set_r: "set ?r = {0..<?A}" by (simp add: argsort_asc_def)
  have dist_r: "distinct ?r" by (simp add: argsort_asc_def)
  have inj: "inj_on ((!) idx) {0..<?A}"
    using assms(1) by (auto simp: inj_on_def nth_eq_iff_index_eq)
  have s: "sorted (map ((!) idx) ?r)" by (simp add: argsort_asc_def sorted_sort_key)
  have d: "distinct (map ((!) idx) ?r)" using dist_r inj by (simp add: distinct_map set_r)
  have "set (map ((!) idx) ?r) = (!) idx ` {0..<?A}" by (simp add: set_r)
  also have "\<dots> = set idx" by (auto simp: set_conv_nth)
  finally have st: "set (map ((!) idx) ?r) = set [0..<?A]" using assms(2) by simp
  have eq: "map ((!) idx) ?r = [0..<?A]"
    by (rule sorted_distinct_set_unique[OF s d _ _ st]) simp_all
  show a: "?r ! i < ?A \<and> idx ! (?r ! i) = i" if "i < ?A" for i
  proof -
    have "?r ! i \<in> set ?r" using that len by simp
    then have "?r ! i < ?A" by (simp add: set_r)
    moreover have "map ((!) idx) ?r ! i = [0..<?A] ! i" by (simp add: eq)
    then have "idx ! (?r ! i) = i" using that len by simp
    ultimately show ?thesis by simp
  qed
  show "?r ! (idx ! p) = p" if "p < ?A" for p
  proof -
    have "idx ! p \<in> set idx" using that by simp
    then have ip: "idx ! p < ?A" using assms(2) by simp
    from a[OF ip] have "?r ! (idx ! p) < ?A" "idx ! (?r ! (idx ! p)) = idx ! p" by simp_all
    then show ?thesis using assms(1) that by (simp add: nth_eq_iff_index_eq)
  qed
qed

lemma is_argsort_desc_mono:
  assumes "is_argsort_desc xs idx" "p \<le> q" "q < length xs"
  shows "xs ! (idx ! q) \<le> xs ! (idx ! p)"
proof -
  have s: "sorted (map (\<lambda>i. - (xs ! i)) idx)" and l: "length idx = length xs"
    using assms(1) by (simp_all add: is_argsort_desc_def)
  from s assms(2,3) l have "map (\<lambda>i. - (xs ! i)) idx ! p \<le> map (\<lambda>i. - (xs ! i)) idx ! q"
    by (intro sorted_nth_mono) simp_all
  then show ?thesis using assms(2,3) l by simp
qed


lemma down_closed_nat_set:
  assumes "finite S" "\<And>p q. q \<in> S \<Longrightarrow> p \<le> q \<Longrightarrow> p \<in> (S::nat set)"
  shows "S = {0..<card S}"
proof (cases "S = {}")
  case True
  then show ?thesis by simp
next
  case False
  define M where "M = Max S"
  have M: "M \<in> S" using assms(1) False by (simp add: M_def)
  have "S = {0..M}"
  proof (intro set_eqI iffI)
    fix x assume "x \<in> S"
    then have "x \<le> M" using assms(1) by (simp add: M_def)
    then show "x \<in> {0..M}" by simp
  next
    fix x assume "x \<in> {0..M}"
    then show "x \<in> S" using assms(2)[OF M] by simp
  qed
  then have "S = {0..<Suc M}" by (simp add: atLeastLessThanSuc_atLeastAtMost)
  moreover then have "card S = Suc M" by simp
  ultimately show ?thesis by simp
qed

lemma loss_c_row_nth:
  assumes "length ce = length t" "i < length t"
  shows "loss_c_row ce t ! i = (if t ! i = 1 then 0 else ce ! i)"
  using assms by (simp add: loss_c_row_def pos_boxes_mask_row_def)

lemma length_loss_c_row: "length ce = length t \<Longrightarrow> length (loss_c_row ce t) = length t"
  by (simp add: loss_c_row_def pos_boxes_mask_row_def)

lemma row_selection:
  fixes ce :: "real list" and t :: "int list"
  assumes len: "length ce = length t"
    and pos: "\<forall>i<length t. t ! i \<noteq> 1 \<longrightarrow> 0 < ce ! i"
    and srt: "is_argsort_desc (loss_c_row ce t) (srt (loss_c_row ce t))"
  shows "length (neg_boxes_mask_row srt ratio (loss_c_row ce t) t) = length t"
    and "length (contributing_negatives srt ratio ce t)
           = min (nat (num_neg_row ratio t)) (length (filter (\<lambda>x. x \<noteq> 1) t))"
    and "\<forall>i\<in>set (contributing_negatives srt ratio ce t). \<forall>j<length t.
           t ! j \<noteq> 1 \<and> j \<notin> set (contributing_negatives srt ratio ce t) \<longrightarrow> ce ! j \<le> ce ! i"
proof -
  define A where "A = length t"
  define lc where "lc = loss_c_row ce t"
  define idx where "idx = srt lc"
  define rank where "rank = argsort_asc idx"
  define k where "k = num_neg_row ratio t"
  define N where "N = contributing_negatives srt ratio ce t"
  have llc: "length lc = A" by (simp add: lc_def A_def length_loss_c_row[OF len])
  have lcn: "lc ! i = (if t ! i = 1 then 0 else ce ! i)" if "i < A" for i
    using that by (simp add: lc_def A_def loss_c_row_nth[OF len])
  have sorted: "is_argsort_desc lc idx" using srt by (simp add: lc_def idx_def)
  then have lidx: "length idx = A" and didx: "distinct idx" and sidx: "set idx = {0..<A}"
    by (simp_all add: is_argsort_desc_def llc)
  have sidx': "set idx = {0..<length idx}" by (simp add: sidx lidx)
  note inv = argsort_asc_inverse[OF didx sidx', folded rank_def, unfolded lidx]
  have idx_lt: "idx ! p < A" if "p < A" for p
  proof -
    have "idx ! p \<in> set idx" using that lidx by simp
    then show ?thesis by (simp add: sidx)
  qed
  have mask: "neg_boxes_mask_row srt ratio (loss_c_row ce t) t = map (\<lambda>r. int r < k) rank"
    by (simp add: neg_boxes_mask_row_def Let_def rank_def idx_def lc_def k_def)
  show "length (neg_boxes_mask_row srt ratio (loss_c_row ce t) t) = length t"
    by (simp add: mask inv(1) A_def)
  have maskn: "neg_boxes_mask_row srt ratio (loss_c_row ce t) t ! i = (int (rank ! i) < k)" if "i < A" for i
    using that by (simp add: mask inv(1))
  have setN: "set N = {i. i < A \<and> int (rank ! i) < k \<and> t ! i \<noteq> 1}"
    using maskn by (auto simp: N_def contributing_negatives_def A_def)
  have distN: "distinct N" by (simp add: N_def contributing_negatives_def)
  define S where "S = {p. p < A \<and> t ! (idx ! p) \<noteq> 1}"
  have finS: "finite S" by (simp add: S_def)
  have down: "p \<in> S" if "q \<in> S" "p \<le> q" for p q
  proof -
    from that have q: "q < A" "t ! (idx ! q) \<noteq> 1" by (simp_all add: S_def)
    have p: "p < A" using q(1) that(2) by simp
    have "lc ! (idx ! q) \<le> lc ! (idx ! p)"
      by (rule is_argsort_desc_mono[OF sorted that(2)]) (simp add: llc q(1))
    moreover have "0 < lc ! (idx ! q)"
      using pos q idx_lt[OF q(1)] by (simp add: lcn A_def)
    ultimately have "0 < lc ! (idx ! p)" by linarith
    then have "t ! (idx ! p) \<noteq> 1" using idx_lt[OF p] by (auto simp: lcn)
    then show ?thesis using p by (simp add: S_def)
  qed
  define m where "m = card S"
  have S_eq: "S = {0..<m}" unfolding m_def by (rule down_closed_nat_set[OF finS down])
  have "S \<subseteq> {0..<A}" by (auto simp: S_def)
  then have "card S \<le> card {0..<A}" by (intro card_mono) simp_all
  then have mA: "m \<le> A" by (simp add: m_def)
  have inj: "inj_on ((!) idx) {0..<A}"
    using didx lidx by (auto simp: inj_on_def nth_eq_iff_index_eq)
  have img: "(!) idx ` S = {i. i < A \<and> t ! i \<noteq> 1}"
  proof (intro set_eqI iffI)
    fix i assume "i \<in> (!) idx ` S"
    then show "i \<in> {i. i < A \<and> t ! i \<noteq> 1}" using idx_lt by (auto simp: S_def)
  next
    fix i assume "i \<in> {i. i < A \<and> t ! i \<noteq> 1}"
    then have i: "i < A" "t ! i \<noteq> 1" by simp_all
    from inv(2)[OF i(1)] have "rank ! i < A" "idx ! (rank ! i) = i" by simp_all
    then have "rank ! i \<in> S" using i(2) by (simp add: S_def)
    then show "i \<in> (!) idx ` S" using \<open>idx ! (rank ! i) = i\<close> by force
  qed
  have "inj_on ((!) idx) S" by (rule inj_on_subset[OF inj]) (auto simp: S_def)
  then have "card ((!) idx ` S) = card S" by (rule card_image)
  then have m_count: "m = length (filter (\<lambda>x. x \<noteq> 1) t)"
    by (simp add: img m_def length_filter_conv_card A_def)
  define n where "n = min (nat k) m"
  have nA: "n \<le> A" using mA by (simp add: n_def)
  have N_img: "set N = (!) idx ` {0..<n}"
  proof (intro set_eqI iffI)
    fix i assume "i \<in> set N"
    then have i: "i < A" "int (rank ! i) < k" "t ! i \<noteq> 1" by (simp_all add: setN)
    from inv(2)[OF i(1)] have r: "rank ! i < A" "idx ! (rank ! i) = i" by simp_all
    have "rank ! i \<in> S" using r i(3) by (simp add: S_def)
    then have "rank ! i < m" by (simp add: S_eq)
    moreover have "rank ! i < nat k" using i(2) by linarith
    ultimately have "rank ! i \<in> {0..<n}" by (simp add: n_def)
    then show "i \<in> (!) idx ` {0..<n}" using r(2) by force
  next
    fix i assume "i \<in> (!) idx ` {0..<n}"
    then obtain p where p: "p < n" "i = idx ! p" by auto
    then have pm: "p < m" and pk: "p < nat k" by (simp_all add: n_def)
    from pm have "p \<in> S" by (simp add: S_eq)
    then have pA: "p < A" and neg: "t ! (idx ! p) \<noteq> 1" by (simp_all add: S_def)
    have "rank ! i = p" using inv(3)[OF pA] p(2) by simp
    moreover have "int p < k" using pk by linarith
    ultimately show "i \<in> set N" using idx_lt[OF pA] neg p(2) by (simp add: setN)
  qed
  have "inj_on ((!) idx) {0..<n}" by (rule inj_on_subset[OF inj]) (use nA in auto)
  then have "card ((!) idx ` {0..<n}) = n" by (simp add: card_image)
  then have "length N = n" using distinct_card[OF distN] N_img by simp
  then show "length (contributing_negatives srt ratio ce t)
           = min (nat (num_neg_row ratio t)) (length (filter (\<lambda>x. x \<noteq> 1) t))"
    by (simp add: N_def n_def k_def m_count)
  have top: "ce ! j \<le> ce ! i" if "i \<in> set N" "j < A" "t ! j \<noteq> 1" "j \<notin> set N" for i j
  proof -
    from that(1) have i: "i < A" "int (rank ! i) < k" "t ! i \<noteq> 1" by (simp_all add: setN)
    from that(2,3,4) have "\<not> int (rank ! j) < k" by (simp add: setN)
    then have le: "rank ! i \<le> rank ! j" using i(2) by linarith
    from inv(2)[OF i(1)] inv(2)[OF that(2)]
    have r: "idx ! (rank ! i) = i" "idx ! (rank ! j) = j" "rank ! j < A" by simp_all
    have "lc ! (idx ! (rank ! j)) \<le> lc ! (idx ! (rank ! i))"
      by (rule is_argsort_desc_mono[OF sorted le]) (simp add: llc r(3))
    then show ?thesis using i that(2,3) by (simp add: r lcn)
  qed
  show "\<forall>i\<in>set (contributing_negatives srt ratio ce t). \<forall>j<length t.
           t ! j \<noteq> 1 \<and> j \<notin> set (contributing_negatives srt ratio ce t) \<longrightarrow> ce ! j \<le> ce ! i"
    using top by (auto simp: N_def A_def)
qed

lemma cross_entropy_none_value:
  assumes "length lr = length tr"
    and "\<forall>a<length tr. 0 \<le> tr ! a \<and> nat (tr ! a) < length (lr ! a)"
  shows "cross_entropy_none lr tr = Inr (map2 cross_entropy_value lr tr)"
proof -
  have "\<forall>x\<in>set (zip lr tr). (\<lambda>(l, t). cross_entropy_elem l t) x = Inr ((\<lambda>(l, t). cross_entropy_value l t) x)"
  proof
    fix x assume "x \<in> set (zip lr tr)"
    then obtain a where a: "a < length tr" "x = (lr ! a, tr ! a)"
      using assms(1) by (auto simp: in_set_zip)
    with assms(2) have "0 \<le> tr ! a" "nat (tr ! a) < length (lr ! a)" by simp_all
    then show "(\<lambda>(l, t). cross_entropy_elem l t) x = Inr ((\<lambda>(l, t). cross_entropy_value l t) x)"
      by (simp add: a(2) cross_entropy_elem_def)
  qed
  from sequence_err_map[OF this] show ?thesis
    using assms(1) by (simp add: cross_entropy_none_def)
qed

lemma exp_less_sum_exp:
  assumes "2 \<le> length xs" "i < length xs"
  shows "exp (xs ! i) < (\<Sum>x\<leftarrow>xs. exp (x::real))"
proof -
  have "(\<Sum>x\<leftarrow>xs. exp x) = (\<Sum>j<length xs. exp (xs ! j))"
    by (simp add: sum_list_sum_nth atLeast0LessThan)
  also have "\<dots> = exp (xs ! i) + (\<Sum>j\<in>{..<length xs} - {i}. exp (xs ! j))"
    using assms(2) by (simp add: sum.remove)
  finally have eq: "(\<Sum>x\<leftarrow>xs. exp x) = exp (xs ! i) + (\<Sum>j\<in>{..<length xs} - {i}. exp (xs ! j))" .
  have "card ({..<length xs} - {i}) = length xs - 1" using assms(2) by simp
  then have "0 < card ({..<length xs} - {i})" using assms(1) by linarith
  then have "{..<length xs} - {i} \<noteq> {}" by (metis card.empty less_numeral_extra(3))
  then have "0 < (\<Sum>j\<in>{..<length xs} - {i}. exp (xs ! j))"
    by (intro sum_pos) simp_all
  then show ?thesis using eq by linarith
qed

lemma cross_entropy_value_pos:
  assumes "2 \<le> length logits" "0 \<le> t" "nat t < length logits"
  shows "0 < cross_entropy_value logits t"
proof -
  have "exp (logits ! nat t) < (\<Sum>x\<leftarrow>logits. exp x)"
    by (rule exp_less_sum_exp[OF assms(1,3)])
  then have "ln (exp (logits ! nat t)) < ln (\<Sum>x\<leftarrow>logits. exp x)"
    by (subst ln_less_cancel_iff) (auto intro: less_trans[OF exp_gt_zero])
  then show ?thesis by (simp add: cross_entropy_value_def)
qed

lemma zip_mask_select_row:
  assumes "length m = length xs" "length xs = length ys"
  shows "zip (mask_select_row m xs) (mask_select_row m ys) = mask_select_row m (zip xs ys)"
  using assms
proof (induction m arbitrary: xs ys)
  case Nil
  then show ?case by (simp add: mask_select_row_Nil)
next
  case (Cons b m)
  then obtain x xs' y ys' where "xs = x # xs'" "ys = y # ys'" "length m = length xs'" "length xs' = length ys'"
    by (cases xs; cases ys) auto
  then show ?case using Cons.IH by (simp add: mask_select_row_Cons)
qed

lemma length_mask_select_row:
  "length m = length xs \<Longrightarrow> length (mask_select_row m xs) = length (filter id m)"
proof (induction m arbitrary: xs)
  case Nil
  then show ?case by (simp add: mask_select_row_Nil)
next
  case (Cons b m)
  then obtain x xs' where "xs = x # xs'" "length m = length xs'" by (cases xs) auto
  then show ?case using Cons.IH by (simp add: mask_select_row_Cons)
qed

lemma zip_mask_select:
  assumes "list_all2 (\<lambda>m xs. length m = length xs) masks xss"
    "list_all2 (\<lambda>xs ys. length xs = length ys) xss yss"
  shows "zip (mask_select masks xss) (mask_select masks yss) = mask_select masks (map2 zip xss yss)"
  using assms
proof (induction masks arbitrary: xss yss)
  case Nil
  then show ?case by (simp add: mask_select_Nil)
next
  case (Cons m masks)
  from Cons.prems obtain xs xss' ys yss' where eq: "xss = xs # xss'" "yss = ys # yss'"
    and row: "length m = length xs" "length xs = length ys"
    and rest: "list_all2 (\<lambda>m xs. length m = length xs) masks xss'"
      "list_all2 (\<lambda>xs ys. length xs = length ys) xss' yss'"
    by (cases xss; cases yss) auto
  have l: "length (mask_select_row m xs) = length (mask_select_row m ys)"
    using row by (simp add: length_mask_select_row)
  show ?case
    using Cons.IH[OF rest] l by (simp add: eq mask_select_Cons zip_mask_select_row[OF row])
qed

lemma sum_list_mask_select_row:
  assumes "length m = length xs"
  shows "sum_list (map F (mask_select_row m xs)) = (\<Sum>(b, x)\<leftarrow>zip m xs. if b then F x else (0::real))"
  using assms
proof (induction m arbitrary: xs)
  case Nil
  then show ?case by (simp add: mask_select_row_Nil)
next
  case (Cons b m)
  then obtain x xs' where "xs = x # xs'" "length m = length xs'" by (cases xs) auto
  then show ?case using Cons.IH by (simp add: mask_select_row_Cons)
qed

lemma sum_list_mask_select:
  assumes "list_all2 (\<lambda>m xs. length m = length xs) masks xss"
  shows "sum_list (map F (mask_select masks xss))
     = (\<Sum>(m, xs)\<leftarrow>zip masks xss. \<Sum>(b, x)\<leftarrow>zip m xs. if b then F x else (0::real))"
  using assms
proof (induction masks arbitrary: xss)
  case Nil
  then show ?case by (simp add: mask_select_Nil)
next
  case (Cons m masks)
  from Cons.prems obtain xs xss' where eq: "xss = xs # xss'" and row: "length m = length xs"
    and rest: "list_all2 (\<lambda>m xs. length m = length xs) masks xss'"
    by (cases xss) auto
  show ?case
    using Cons.IH[OF rest] by (simp add: eq mask_select_Cons sum_list_mask_select_row[OF row])
qed

lemma set_mask_select_row: "set (mask_select_row m xs) \<subseteq> set xs"
  by (auto simp: mask_select_row_def dest: set_zip_rightD)

lemma set_mask_select:
  "list_all2 (\<lambda>m xs. length m = length xs) masks xss \<Longrightarrow> set (mask_select masks xss) \<subseteq> set (concat xss)"
proof (induction masks arbitrary: xss)
  case Nil
  then show ?case by (simp add: mask_select_Nil)
next
  case (Cons m masks)
  from Cons.prems obtain xs xss' where eq: "xss = xs # xss'"
    and rest: "list_all2 (\<lambda>m xs. length m = length xs) masks xss'"
    by (cases xss) auto
  show ?case using Cons.IH[OF rest] set_mask_select_row[of m xs]
    by (auto simp: eq mask_select_Cons)
qed


lemma cross_entropy_none_value_set:
  assumes "length lr = length tr"
    and "\<forall>(l, t)\<in>set (zip lr tr). 0 \<le> t \<and> nat t < length l"
  shows "cross_entropy_none lr tr = Inr (map2 cross_entropy_value lr tr)"
proof (rule cross_entropy_none_value[OF assms(1)], intro allI impI)
  fix a assume "a < length tr"
  then have "(lr ! a, tr ! a) \<in> set (zip lr tr)"
    using assms(1) by (auto simp: in_set_zip)
  with assms(2) show "0 \<le> tr ! a \<and> nat (tr ! a) < length (lr ! a)" by auto
qed

lemma length_mask_select:
  "list_all2 (\<lambda>m xs. length m = length xs) masks xss \<Longrightarrow>
     length (mask_select masks xss) = sum_list (map (\<lambda>m. length (filter id m)) masks)"
proof (induction masks arbitrary: xss)
  case Nil
  then show ?case by (simp add: mask_select_Nil)
next
  case (Cons m masks)
  from Cons.prems obtain xs xss' where eq: "xss = xs # xss'" and row: "length m = length xs"
    and rest: "list_all2 (\<lambda>m xs. length m = length xs) masks xss'"
    by (cases xss) auto
  show ?case
    using Cons.IH[OF rest] by (simp add: eq mask_select_Cons length_mask_select_row[OF row] id_def)
qed

lemma nth_nth_in_concat:
  assumes "b < length xss" "a < length (xss ! b)"
  shows "xss ! b ! a \<in> set (concat xss)"
  using assms by (auto intro!: bexI[of _ "xss ! b"])

lemma length_neg_boxes_mask_row:
  assumes "length ce = length t" "is_argsort_desc (loss_c_row ce t) (srt (loss_c_row ce t))"
  shows "length (neg_boxes_mask_row srt ratio (loss_c_row ce t) t) = length t"
  using assms
  by (simp add: neg_boxes_mask_row_def Let_def argsort_asc_def is_argsort_desc_def
      length_loss_c_row)

lemma length_selected_mask_row:
  assumes "length ce = length t" "is_argsort_desc (loss_c_row ce t) (srt (loss_c_row ce t))"
  shows "length (selected_mask_row srt ratio ce t) = length t"
  using length_neg_boxes_mask_row[where srt = srt and ratio = ratio, OF assms]
  by (simp add: selected_mask_row_def pos_boxes_mask_row_def)

lemma selected_mask_row_nth:
  assumes "length ce = length t" "is_argsort_desc (loss_c_row ce t) (srt (loss_c_row ce t))"
    "a < length t"
  shows "selected_mask_row srt ratio ce t ! a
      \<longleftrightarrow> t ! a = 1 \<or> a \<in> set (contributing_negatives srt ratio ce t)"
  using assms length_neg_boxes_mask_row[where srt = srt and ratio = ratio, OF assms(1,2)]
  by (auto simp: selected_mask_row_def pos_boxes_mask_row_def contributing_negatives_def)

lemma num_pos_count:
  "sum_list (map num_pos_row targets) = int (length (filter (\<lambda>t. t = 1) (concat targets)))"
  by (induction targets)
     (simp_all add: num_pos_row_def pos_boxes_mask_row_def length_filter_id_map del: id_apply)

lemma zip_concat:
  assumes "list_all2 (\<lambda>x y. length x = length y) xs ys"
  shows "zip (concat xs) (concat ys) = concat (map2 zip xs ys)"
  using assms by (induction rule: list_all2_induct) simp_all

lemma map2_concat:
  assumes "list_all2 (\<lambda>x y. length x = length y) xs ys"
  shows "map2 f (concat xs) (concat ys) = concat (map2 (map2 f) xs ys)"
  using assms by (induction rule: list_all2_induct) simp_all

lemma rank_mask_same:
  assumes "length ts = length lc"
  shows "rank_mask (map srt lc) (map (num_neg_row ratio) ts)
           = Inr (map2 (neg_boxes_mask_row srt ratio) lc ts)"
proof -
  have "map2 (\<lambda>r k. map (\<lambda>i. int i < k) r) (map argsort_asc (map srt lc)) (map (num_neg_row ratio) ts)
          = map2 (neg_boxes_mask_row srt ratio) lc ts"
    by (rule nth_equalityI) (simp_all add: assms neg_boxes_mask_row_def Let_def)
  then show ?thesis
    by (simp add: rank_mask_def Let_def expand_dim_same assms)
qed

lemma OHEM_forward_value:
  assumes t3: "tensor3 B A C pred_logits" and t2: "tensor2 B A targets"
    and B: "0 < B" and C: "0 < C" and nc: "ohem_num_classes self = C"
    and rng: "\<forall>t\<in>set (concat targets). 0 \<le> t \<and> t < int C"
    and srt: "\<forall>b<B.
        is_argsort_desc (loss_c_row (anchor_ce pred_logits targets b) (targets ! b))
          (srt (loss_c_row (anchor_ce pred_logits targets b) (targets ! b)))"
  shows "OHEM_forward srt self pred_logits targets =
    Inr ((\<Sum>b<B. \<Sum>a<A.
            if targets ! b ! a = 1
               \<or> a \<in> set (contributing_negatives srt (ohem_neg_pos_ratio self)
                           (anchor_ce pred_logits targets b) (targets ! b))
            then anchor_ce pred_logits targets b ! a else 0)
         / max (real (length (filter (\<lambda>t. t = 1) (concat targets)))) 1)"
proof -
  let ?pl = pred_logits and ?ts = targets and ?r = "ohem_neg_pos_ratio self"
  have sh: "shape3 ?ts C ?pl" by (rule tensor3_shape3[OF t2 t3])
  have lts: "length ?ts = B" and lpl: "length ?pl = B"
    using t2 t3 by (simp_all add: tensor2_def tensor3_def)
  have lt: "length (?ts ! b) = A" if "b < B" for b
    using t2 that lts by (simp add: tensor2_def)
  have lrow: "length (?pl ! b) = length (?ts ! b)" if "b < B" for b
    using sh that by (simp add: shape3_def lts)
  have lC: "length (?pl ! b ! a) = C" if "b < B" "a < length (?ts ! b)" for b a
    using sh that by (simp add: shape3_def lts)
  have valid: "0 \<le> ?ts ! b ! a \<and> nat (?ts ! b ! a) < length (?pl ! b ! a)"
    if "b < B" "a < length (?ts ! b)" for b a
  proof -
    have "?ts ! b ! a \<in> set (concat ?ts)"
      using that by (intro nth_nth_in_concat) (simp_all add: lts)
    with rng have "0 \<le> ?ts ! b ! a" "?ts ! b ! a < int C" by blast+
    then show ?thesis using lC[OF that] by simp
  qed
  have lce: "length (anchor_ce ?pl ?ts b) = length (?ts ! b)" if "b < B" for b
    using lrow[OF that] by (simp add: anchor_ce_def)
  have ce_nth: "anchor_ce ?pl ?ts b ! a = cross_entropy_value (?pl ! b ! a) (?ts ! b ! a)"
    if "b < B" "a < length (?ts ! b)" for b a
    using that lrow[OF that(1)] by (simp add: anchor_ce_def)
  have all_pt: "list_all2 (\<lambda>xs ys. length xs = length ys) ?pl ?ts"
    by (simp add: list_all2_conv_all_nth lpl lts lrow)
  \<comment> \<open>line 50: the view and the per-anchor cross-entropies\<close>
  have s1: "view_rows (ohem_num_classes self) (concat (concat ?pl)) = Inr (concat ?pl)"
    unfolding nc by (rule view_rows_concat[OF shape3_rows[OF sh] C])
  define CE where "CE = map (anchor_ce ?pl ?ts) [0..<B]"
  have lCE: "length CE = B" by (simp add: CE_def)
  have CE_nth: "CE ! b = anchor_ce ?pl ?ts b" if "b < B" for b using that by (simp add: CE_def)
  have CE_zip: "map2 (map2 cross_entropy_value) ?pl ?ts = CE"
    by (rule nth_equalityI) (simp_all add: CE_def lpl lts anchor_ce_def)
  have rows_pl: "\<forall>r\<in>set ?pl. length r = A" using t3 by (simp add: tensor3_def)
  have rows_ts: "\<forall>r\<in>set ?ts. length r = A" using t2 by (simp add: tensor2_def)
  have lflat: "length (concat ?pl) = length (concat ?ts)"
    by (simp add: length_concat_rows[OF rows_pl] length_concat_rows[OF rows_ts] lpl lts)
  have pairs0: "\<forall>(l, t)\<in>set (zip (concat ?pl) (concat ?ts)). 0 \<le> t \<and> nat t < length l"
  proof -
    have "0 \<le> t \<and> nat t < length l" if "(l, t) \<in> set (zip (concat ?pl) (concat ?ts))" for l t
    proof -
      from that have "(l, t) \<in> set (concat (map2 zip ?pl ?ts))"
        by (simp only: zip_concat[OF all_pt])
      then obtain row where "row \<in> set (map2 zip ?pl ?ts)" "(l, t) \<in> set row" by auto
      then obtain b where b: "b < B" "row = zip (?pl ! b) (?ts ! b)"
        using lpl lts by (auto simp: in_set_zip)
      with \<open>(l, t) \<in> set row\<close> obtain a where a: "a < length (?ts ! b)" "l = ?pl ! b ! a" "t = ?ts ! b ! a"
        using lrow[OF b(1)] by (auto simp: in_set_zip)
      show ?thesis using valid[OF b(1) a(1)] by (simp add: a(2,3))
    qed
    then show ?thesis by auto
  qed
  have s2: "cross_entropy_none (concat ?pl) (concat ?ts) = Inr (concat CE)"
    by (simp add: cross_entropy_none_value_set[OF lflat pairs0] map2_concat[OF all_pt] CE_zip)
  \<comment> \<open>line 52: the positives set to zero\<close>
  define LC where "LC = map (\<lambda>b. loss_c_row (anchor_ce ?pl ?ts b) (?ts ! b)) [0..<B]"
  have lLC: "length LC = B" by (simp add: LC_def)
  have LC_nth: "LC ! b = loss_c_row (anchor_ce ?pl ?ts b) (?ts ! b)" if "b < B" for b
    using that by (simp add: LC_def)
  have all_cm: "list_all2 (\<lambda>xs ys. length xs = length ys) CE (map pos_boxes_mask_row ?ts)"
    by (simp add: list_all2_conv_all_nth lCE lts CE_nth lce pos_boxes_mask_row_def)
  have LC_zip: "map2 (map2 (\<lambda>l p. if p then 0 else l)) CE (map pos_boxes_mask_row ?ts) = LC"
    by (rule nth_equalityI) (simp_all add: LC_def lCE lts CE_nth loss_c_row_def)
  have rows_m: "\<forall>r\<in>set (map pos_boxes_mask_row ?ts). length r = A"
    using rows_ts by (simp add: pos_boxes_mask_row_def)
  have rows_ce: "\<forall>r\<in>set CE. length r = A"
    by (auto simp: CE_def lce lt)
  have lmask: "length (concat (map pos_boxes_mask_row ?ts)) = length (concat CE)"
    by (simp add: length_concat_rows[OF rows_m] length_concat_rows[OF rows_ce] lCE lts)
  have s3: "masked_fill_zero (concat CE) (concat (map pos_boxes_mask_row ?ts)) = Inr (concat LC)"
    by (simp add: masked_fill_zero_def lmask map2_concat[OF all_cm] LC_zip)
  \<comment> \<open>line 53: one row per batch entry\<close>
  have LC_len: "\<forall>r\<in>set LC. length r = A"
    by (auto simp: LC_def length_loss_c_row[OF lce] lt)
  have LC_ne: "LC \<noteq> []" using B lLC by auto
  have s4: "view_batch (length ?pl) (concat LC) = Inr LC"
    using view_batch_concat[OF LC_len LC_ne] by (simp add: lLC lpl)
  \<comment> \<open>lines 54 to 58: the mask of the hard negatives\<close>
  define NM where "NM = map2 (neg_boxes_mask_row srt ?r) LC ?ts"
  have lNM: "length NM = B" by (simp add: NM_def lLC lts)
  have NM_nth: "NM ! b = neg_boxes_mask_row srt ?r (loss_c_row (anchor_ce ?pl ?ts b) (?ts ! b)) (?ts ! b)"
    if "b < B" for b
    using that by (simp add: NM_def lLC lts LC_nth)
  have srt_b: "is_argsort_desc (loss_c_row (anchor_ce ?pl ?ts b) (?ts ! b))
          (srt (loss_c_row (anchor_ce ?pl ?ts b) (?ts ! b)))" if "b < B" for b
    using srt that by simp
  have lNM_row: "length (NM ! b) = length (?ts ! b)" if "b < B" for b
    by (simp add: NM_nth[OF that]
        length_neg_boxes_mask_row[where srt = srt, OF lce[OF that] srt_b[OF that]])
  define PM where "PM = map pos_boxes_mask_row ?ts"
  have lPM: "length PM = B" by (simp add: PM_def lts)
  have PM_nth: "PM ! b = pos_boxes_mask_row (?ts ! b)" if "b < B" for b
    using that by (simp add: PM_def lts)
  have s3': "masked_fill_zero (concat CE) (concat PM) = Inr (concat LC)"
    by (simp add: PM_def s3)
  have all_pm: "list_all2 (\<lambda>m r. length m = length r) PM ?pl"
    by (simp add: list_all2_conv_all_nth lPM lpl PM_nth pos_boxes_mask_row_def lrow)
  have all_nm: "list_all2 (\<lambda>m r. length m = length r) NM ?pl"
    by (simp add: list_all2_conv_all_nth lNM lpl lNM_row lrow)
  have s5: "rank_mask (map srt LC) (map (num_neg_row ?r) ?ts) = Inr NM"
    unfolding NM_def by (rule rank_mask_same) (simp add: lLC lts)
  have s6: "expand_as PM ?pl = Inr (expand_mask PM ?pl)" by (rule expand_as_same[OF all_pm])
  have s7: "expand_as NM ?pl = Inr (expand_mask NM ?pl)" by (rule expand_as_same[OF all_nm])
  define masks where "masks = map2 (selected_mask_row srt ?r) CE ?ts"
  have lmasks: "length masks = B" by (simp add: masks_def lCE lts)
  have masks_nth: "masks ! b = selected_mask_row srt ?r (anchor_ce ?pl ?ts b) (?ts ! b)"
    if "b < B" for b
    using that by (simp add: masks_def lCE lts CE_nth)
  have masks_or: "map2 (map2 (\<or>)) PM NM = masks"
    by (rule nth_equalityI)
       (simp_all add: lPM lNM lmasks masks_nth PM_nth NM_nth selected_mask_row_def)
  have lmask_row: "length (masks ! b) = length (?ts ! b)" if "b < B" for b
    by (simp add: masks_nth[OF that]
        length_selected_mask_row[where srt = srt, OF lce[OF that] srt_b[OF that]])
  have mask_sel: "masks ! b ! a \<longleftrightarrow> ?ts ! b ! a = 1
      \<or> a \<in> set (contributing_negatives srt ?r (anchor_ce ?pl ?ts b) (?ts ! b))"
    if "b < B" "a < length (?ts ! b)" for b a
    by (simp add: masks_nth[OF that(1)]
        selected_mask_row_nth[where srt = srt, OF lce[OF that(1)] srt_b[OF that(1)] that(2)])
  have all_mp: "list_all2 (\<lambda>m xs. length m = length xs) masks ?pl"
    by (simp add: list_all2_conv_all_nth lmasks lpl lmask_row lrow)
  have all_mt: "list_all2 (\<lambda>m xs. length m = length xs) masks ?ts"
    by (simp add: list_all2_conv_all_nth lmasks lts lmask_row)
  have all_mz: "list_all2 (\<lambda>m xs. length m = length xs) masks (map2 zip ?pl ?ts)"
    by (simp add: list_all2_conv_all_nth lmasks lpl lts lmask_row lrow)
  have all_pp: "list_all2 (list_all2 (\<lambda>v w. length v = length w)) ?pl ?pl"
    by (simp add: list_all2_conv_all_nth)
  define X where "X = mask_select masks ?pl"
  define Y where "Y = mask_select masks ?ts"
  have s8: "bool_index ?pl (map2 (map2 (map2 (\<or>))) (expand_mask PM ?pl) (expand_mask NM ?pl))
      = Inr (concat X)"
    by (simp add: expand_mask_or[OF all_pm all_nm] masks_or bool_index_expand[OF all_mp all_pp] X_def)
  have X_len: "\<forall>v\<in>set X. length v = C"
    using set_mask_select[OF all_mp] shape3_rows[OF sh] by (auto simp: X_def)
  have s9: "view_rows (ohem_num_classes self) (concat X) = Inr X"
    unfolding nc by (rule view_rows_concat[OF X_len C])
  have all_pn: "list_all2 (\<lambda>p n. length p = length n) PM NM"
    by (simp add: list_all2_conv_all_nth lPM lNM lNM_row PM_nth pos_boxes_mask_row_def)
  have s10: "bind_err (add_masks PM NM) (bool_index2 ?ts) = Inr Y"
    by (simp add: add_masks_same[OF all_pn] masks_or bool_index2_def all_mt Y_def)
  have lXY: "length X = length Y"
    by (simp add: X_def Y_def length_mask_select[OF all_mp] length_mask_select[OF all_mt])
  have zXY: "zip X Y = mask_select masks (map2 zip ?pl ?ts)"
    unfolding X_def Y_def by (rule zip_mask_select[OF all_mp all_pt])
  have pairs: "\<forall>(l, t)\<in>set (zip X Y). 0 \<le> t \<and> nat t < length l"
  proof -
    have "0 \<le> t \<and> nat t < length l" if "(l, t) \<in> set (zip X Y)" for l t
    proof -
      from that have "(l, t) \<in> set (mask_select masks (map2 zip ?pl ?ts))"
        by (simp only: zXY)
      then have "(l, t) \<in> set (concat (map2 zip ?pl ?ts))"
        using set_mask_select[OF all_mz] by (rule set_mp[rotated])
      then have "(l, t) \<in> set (zip (concat ?pl) (concat ?ts))"
        by (simp only: zip_concat[OF all_pt])
      with pairs0 show ?thesis by auto
    qed
    then show ?thesis by auto
  qed
  have s11: "cross_entropy_sum X Y = Inr (sum_list (map2 cross_entropy_value X Y))"
    by (simp add: cross_entropy_sum_def cross_entropy_none_value_set[OF lXY pairs])
  have "sum_list (map2 cross_entropy_value X Y)
      = (\<Sum>(m, xs)\<leftarrow>zip masks (map2 zip ?pl ?ts).
           \<Sum>(c, x)\<leftarrow>zip m xs. if c then (\<lambda>(l, t). cross_entropy_value l t) x else 0)"
    unfolding zXY by (rule sum_list_mask_select[OF all_mz])
  also have "\<dots> = (\<Sum>b<B. \<Sum>(c, x)\<leftarrow>zip (masks ! b) (zip (?pl ! b) (?ts ! b)).
           if c then (\<lambda>(l, t). cross_entropy_value l t) x else 0)"
  proof -
    have l: "length masks = length (map2 zip ?pl ?ts)" by (simp add: lmasks lpl lts)
    have "(\<Sum>(m, xs)\<leftarrow>zip masks (map2 zip ?pl ?ts).
           \<Sum>(c, x)\<leftarrow>zip m xs. if c then (\<lambda>(l, t). cross_entropy_value l t) x else 0)
        = (\<Sum>b<length masks. \<Sum>(c, x)\<leftarrow>zip (masks ! b) (map2 zip ?pl ?ts ! b).
           if c then (\<lambda>(l, t). cross_entropy_value l t) x else 0)"
      by (rule sum_list_map2_nth[OF l])
    also have "\<dots> = (\<Sum>b<B. \<Sum>(c, x)\<leftarrow>zip (masks ! b) (zip (?pl ! b) (?ts ! b)).
           if c then (\<lambda>(l, t). cross_entropy_value l t) x else 0)"
      unfolding lmasks by (rule sum.cong) (simp_all add: lpl lts)
    finally show ?thesis .
  qed
  also have "\<dots> = (\<Sum>b<B. \<Sum>a<A.
            if ?ts ! b ! a = 1
               \<or> a \<in> set (contributing_negatives srt ?r (anchor_ce ?pl ?ts b) (?ts ! b))
            then anchor_ce ?pl ?ts b ! a else 0)"
  proof (rule sum.cong)
    fix b assume "b \<in> {..<B}"
    then have b: "b < B" by simp
    have l: "length (masks ! b) = length (zip (?pl ! b) (?ts ! b))"
      by (simp add: lmask_row[OF b] lrow[OF b])
    have "(\<Sum>(c, x)\<leftarrow>zip (masks ! b) (zip (?pl ! b) (?ts ! b)).
           if c then (\<lambda>(l, t). cross_entropy_value l t) x else 0)
        = (\<Sum>a<length (masks ! b). if masks ! b ! a
             then (\<lambda>(l, t). cross_entropy_value l t) (zip (?pl ! b) (?ts ! b) ! a) else 0)"
      by (rule sum_list_map2_nth[OF l])
    also have "\<dots> = (\<Sum>a<length (?ts ! b).
            if ?ts ! b ! a = 1
               \<or> a \<in> set (contributing_negatives srt ?r (anchor_ce ?pl ?ts b) (?ts ! b))
            then anchor_ce ?pl ?ts b ! a else 0)"
      unfolding lmask_row[OF b]
      by (rule sum.cong) (simp_all add: mask_sel[OF b] ce_nth[OF b] lrow[OF b])
    finally show "(\<Sum>(c, x)\<leftarrow>zip (masks ! b) (zip (?pl ! b) (?ts ! b)).
           if c then (\<lambda>(l, t). cross_entropy_value l t) x else 0)
        = (\<Sum>a<A.
            if ?ts ! b ! a = 1
               \<or> a \<in> set (contributing_negatives srt ?r (anchor_ce ?pl ?ts b) (?ts ! b))
            then anchor_ce ?pl ?ts b ! a else 0)"
      by (simp add: lt[OF b])
  qed simp
  finally have total: "sum_list (map2 cross_entropy_value X Y)
      = (\<Sum>b<B. \<Sum>a<A.
            if ?ts ! b ! a = 1
               \<or> a \<in> set (contributing_negatives srt ?r (anchor_ce ?pl ?ts b) (?ts ! b))
            then anchor_ce ?pl ?ts b ! a else 0)" .
  have "OHEM_forward srt self ?pl ?ts =
      Inr (sum_list (map2 cross_entropy_value X Y)
             / max (real_of_int (sum_list (map num_pos_row ?ts))) 1)"
    unfolding OHEM_forward_def Let_def
    by (simp add: s1 s2 s3' s4 PM_def[symmetric] s5 s6 s7 s8 s9 s10 s11)
  then show ?thesis
    by (simp add: total num_pos_count)
qed

lemma is_argsort_desc_argsort_desc: "is_argsort_desc xs (argsort_desc xs)"
  by (simp add: is_argsort_desc_def argsort_desc_def sorted_sort_key)

lemma num_neg_row_eq:
  "num_neg_row ratio t
     = min (ratio * int (length (filter (\<lambda>x. x = 1) t))) (int (length t) - 1)"
  by (simp add: num_neg_row_def num_pos_row_def pos_boxes_mask_row_def length_filter_id_map
      del: id_apply)

lemma example_anchor_ce:
  "anchor_ce [[[0, 0], [0, 0], [0, 0]]] [[t0, t1, t2]] 0 = [ln 2, ln 2, ln 2]"
  if "t0 \<in> {0, 1}" "t1 \<in> {0, 1}" "t2 \<in> {0, 1}"
  using that by (auto simp: anchor_ce_def cross_entropy_value_def)

text \<open>
  Where the framework rejects the input: an empty batch at \<open>loss_c.view(batch_size, -1)\<close>,
  and a number of classes that is not the last dimension of the logits at the first
  cross-entropy.
\<close>

lemma OHEM_forward_empty_batch: "OHEM_forward srt self [] [] = Inl RuntimeError"
  by (simp add: OHEM_forward_def view_rows_def cross_entropy_none_def masked_fill_zero_def
      view_batch_def)

lemma OHEM_forward_wrong_num_classes:
  "OHEM_forward srt (OHEM_init 3 3) [[[0, 0], [0, 0], [0, 0]]] [[1, 0, 0]] = Inl ValueError"
  by (simp add: OHEM_forward_def OHEM_init_def view_rows_def cross_entropy_none_def upt_unfold)

text \<open>
  Claim C2, as the code has it. For logits of shape \<open>(B, A, C)\<close> and targets of shape
  \<open>(B, A)\<close> with \<open>B > 0\<close>, \<open>C = num_classes \<ge> 2\<close>, class indices in \<open>[0, C)\<close> and any
  result the framework's sort may return, \<open>OHEM.forward\<close> returns a loss, and in each
  batch row the negative anchors that contribute are \<open>min k n\<close> non-positive anchors with
  the largest per-anchor cross-entropy, where
  \<open>k = min (neg_pos_ratio * number of positives of the row) (A - 1)\<close> and \<open>n\<close> is the number
  of non-positive anchors of the row: no non-positive anchor left out has a larger
  cross-entropy than a contributing one. The loss is the sum of the cross-entropies of all
  positive anchors and of these negatives, divided by
  \<open>max (number of positives of the batch) 1\<close>.
\<close>

theorem OHEM_forward_hard_negatives:
  assumes "tensor3 B A C pred_logits" and "tensor2 B A targets"
    and "0 < B" and "2 \<le> C" and "ohem_num_classes self = C"
    and "\<forall>t\<in>set (concat targets). 0 \<le> t \<and> t < int C"
    and "\<forall>b<B.
        is_argsort_desc (loss_c_row (anchor_ce pred_logits targets b) (targets ! b))
          (srt (loss_c_row (anchor_ce pred_logits targets b) (targets ! b)))"
  shows "\<exists>loss. OHEM_forward srt self pred_logits targets = Inr loss
    \<and> (\<forall>b<B.
          length (contributing_negatives srt (ohem_neg_pos_ratio self)
                    (anchor_ce pred_logits targets b) (targets ! b))
            = min (nat (min (ohem_neg_pos_ratio self
                               * int (length (filter (\<lambda>t. t = 1) (targets ! b))))
                            (int A - 1)))
                  (length (filter (\<lambda>t. t \<noteq> 1) (targets ! b)))
          \<and> (\<forall>i\<in>set (contributing_negatives srt (ohem_neg_pos_ratio self)
                          (anchor_ce pred_logits targets b) (targets ! b)).
               \<forall>j<A.
                 targets ! b ! j \<noteq> 1
                 \<and> j \<notin> set (contributing_negatives srt (ohem_neg_pos_ratio self)
                               (anchor_ce pred_logits targets b) (targets ! b))
                 \<longrightarrow> anchor_ce pred_logits targets b ! j \<le> anchor_ce pred_logits targets b ! i))
    \<and> loss = (\<Sum>b<B. \<Sum>a<A.
                 if targets ! b ! a = 1
                    \<or> a \<in> set (contributing_negatives srt (ohem_neg_pos_ratio self)
                                (anchor_ce pred_logits targets b) (targets ! b))
                 then anchor_ce pred_logits targets b ! a else 0)
              / max (real (length (filter (\<lambda>t. t = 1) (concat targets)))) 1"
proof -
  let ?r = "ohem_neg_pos_ratio self"
  have sh: "shape3 targets C pred_logits" by (rule tensor3_shape3[OF assms(2,1)])
  have lts: "length targets = B" using assms(2) by (simp add: tensor2_def)
  have lt: "length (targets ! b) = A" if "b < B" for b
    using assms(2) that lts by (simp add: tensor2_def)
  have C: "0 < C" using assms(4) by simp
  have rows: "length (contributing_negatives srt ?r (anchor_ce pred_logits targets b) (targets ! b))
            = min (nat (min (?r * int (length (filter (\<lambda>t. t = 1) (targets ! b))))
                            (int A - 1)))
                  (length (filter (\<lambda>t. t \<noteq> 1) (targets ! b)))
          \<and> (\<forall>i\<in>set (contributing_negatives srt ?r (anchor_ce pred_logits targets b) (targets ! b)).
               \<forall>j<A.
                 targets ! b ! j \<noteq> 1
                 \<and> j \<notin> set (contributing_negatives srt ?r (anchor_ce pred_logits targets b) (targets ! b))
                 \<longrightarrow> anchor_ce pred_logits targets b ! j \<le> anchor_ce pred_logits targets b ! i)"
    if b: "b < B" for b
  proof -
    have b': "b < length targets" using b lts by simp
    have lrow: "length (pred_logits ! b) = length (targets ! b)"
      using sh b' by (simp add: shape3_def)
    have len: "length (anchor_ce pred_logits targets b) = length (targets ! b)"
      using lrow by (simp add: anchor_ce_def)
    have pos: "\<forall>i<length (targets ! b). targets ! b ! i \<noteq> 1 \<longrightarrow> 0 < anchor_ce pred_logits targets b ! i"
    proof (intro allI impI)
      fix i assume i: "i < length (targets ! b)"
      have lC: "length (pred_logits ! b ! i) = C" using sh b' i by (simp add: shape3_def)
      have "targets ! b ! i \<in> set (concat targets)" by (rule nth_nth_in_concat[OF b' i])
      with assms(6) have "0 \<le> targets ! b ! i" "targets ! b ! i < int C" by blast+
      then have "0 < cross_entropy_value (pred_logits ! b ! i) (targets ! b ! i)"
        using assms(4) lC by (intro cross_entropy_value_pos) simp_all
      then show "0 < anchor_ce pred_logits targets b ! i"
        using i lrow by (simp add: anchor_ce_def)
    qed
    have s: "is_argsort_desc (loss_c_row (anchor_ce pred_logits targets b) (targets ! b))
          (srt (loss_c_row (anchor_ce pred_logits targets b) (targets ! b)))"
      using assms(7) b by simp
    from row_selection(2,3)[where srt = srt and ratio = ?r, OF len pos s]
    show ?thesis by (simp add: num_neg_row_eq lt[OF b])
  qed
  show ?thesis
    using OHEM_forward_value[OF assms(1,2,3) C assms(5,6,7)] rows by simp
qed

text \<open>
  The claim says that exactly \<open>k\<close> non-positive anchors contribute. In a row with two
  positives and one negative and \<open>neg_pos_ratio = 3\<close>, \<open>k = min 6 2 = 2\<close>, and the only
  non-positive anchor is the only negative that contributes.
\<close>

theorem OHEM_forward_fewer_negatives:
  "contributing_negatives argsort_desc 3
      (anchor_ce [[[0, 0], [0, 0], [0, 0]]] [[1, 1, 0]] 0) [1, 1, 0] = [2]
   \<and> min (3 * int (length (filter (\<lambda>t. t = 1) [1, 1, 0 :: int]))) (int (length [1, 1, 0 :: int]) - 1)
       = 2
   \<and> length (filter (\<lambda>t. t \<noteq> 1) [1, 1, 0 :: int]) = 1
   \<and> OHEM_forward argsort_desc (OHEM_init 3 2) [[[0, 0], [0, 0], [0, 0]]] [[1, 1, 0]]
       = Inr (3 * ln 2 / 2)"
proof -
  have ce: "anchor_ce [[[0, 0], [0, 0], [0, 0]]] [[1, 1, 0]] 0 = [ln 2, ln 2, ln 2]"
    by (rule example_anchor_ce) simp_all
  have 1: "contributing_negatives argsort_desc 3 [ln 2, ln 2, ln 2] [1, 1, 0] = [2]"
    by (simp add: contributing_negatives_def OHEM_eval_defs upt_unfold)
  have 2: "OHEM_forward argsort_desc (OHEM_init 3 2) [[[0, 0], [0, 0], [0, 0]]] [[1, 1, 0]]
       = Inr (3 * ln 2 / 2)"
    by (simp add: OHEM_eval_defs cross_entropy_elem_zero upt_unfold)
  show ?thesis by (simp add: ce 1 2)
qed

theorem OHEM_forward_hard_negatives_witness:
  "\<exists>loss. OHEM_forward argsort_desc (OHEM_init 3 2) [[[0, 0], [0, 0], [0, 0]]] [[1, 0, 0]] = Inr loss
     \<and> length (contributing_negatives argsort_desc 3
                 (anchor_ce [[[0, 0], [0, 0], [0, 0]]] [[1, 0, 0]] 0) [1, 0, 0]) = 2"
proof -
  have t3: "tensor3 1 3 2 [[[0, 0], [0, 0], [0 :: real, 0]]]"
    by (simp add: tensor3_def)
  have t2: "tensor2 1 3 [[1, 0, 0 :: int]]"
    by (simp add: tensor2_def)
  have b: "(0::nat) < 1" and c: "(2::nat) \<le> 2" by simp_all
  have nc: "ohem_num_classes (OHEM_init 3 2) = 2" by (simp add: OHEM_init_def)
  have rng: "\<forall>t\<in>set (concat [[1, 0, 0 :: int]]). 0 \<le> t \<and> t < int 2" by simp
  have srt: "\<forall>b<1.
        is_argsort_desc (loss_c_row (anchor_ce [[[0, 0], [0, 0], [0, 0]]] [[1, 0, 0]] b) ([[1, 0, 0]] ! b))
          (argsort_desc (loss_c_row (anchor_ce [[[0, 0], [0, 0], [0, 0]]] [[1, 0, 0]] b) ([[1, 0, 0]] ! b)))"
    by (simp add: is_argsort_desc_argsort_desc)
  show ?thesis
    using OHEM_forward_hard_negatives[OF t3 t2 b c nc rng srt]
    by (auto simp: OHEM_init_def)
qed

section \<open>MultiBoxLoss: the regression losses\<close>

lemma count_divisor_filter:
  "count_divisor (map (map P) labels) = max (real (length (filter P (concat labels)))) 1"
  by (simp add: count_divisor_def Let_def mask_count del: map_map)

lemma count_divisor_ge_1: "1 \<le> count_divisor msk"
  by (simp add: count_divisor_def Let_def)

lemma masked_loss_eq_divisor:
  assumes "shape3 labels n pred" "shape3 labels n gt"
  shows "smooth_l1_loss_sum (mask_select (map (map P) labels) pred) (mask_select (map (map P) labels) gt)
           / count_divisor (map (map P) labels)
         = masked_smooth_l1 P labels pred gt"
  using masked_loss_eq[OF assms, of P] by (simp add: count_divisor_def Let_def del: map_map)

lemma shape3_refl:
  assumes "shape3 labels n t"
  shows "list_all2 (list_all2 (\<lambda>v w. length v = length w)) t t"
  by (simp add: list_all2_conv_all_nth)

text \<open>On tensors of the shapes of the docstring the steps raise nothing.\<close>

lemma regression_loss_value:
  assumes "shape3 labels n pred" "shape3 labels n gt" "0 < n"
  shows "regression_loss (map (map P) labels) pred gt n = Inr (masked_smooth_l1 P labels pred gt)"
proof -
  let ?m = "map (map P) labels"
  note e = shape3_expand[OF assms(1), of P]
  have 1: "expand_as ?m pred = Inr (expand_mask ?m pred)"
    by (rule expand_as_same[OF e])
  have 2: "bool_index pred (expand_mask ?m pred) = Inr (concat (mask_select ?m pred))"
    by (rule bool_index_expand[OF e shape3_refl[OF assms(1)]])
  have 3: "bool_index gt (expand_mask ?m pred) = Inr (concat (mask_select ?m gt))"
    by (rule bool_index_expand[OF e shape3_same[OF assms(1,2)]])
  have lp: "\<forall>v\<in>set (mask_select ?m pred). length v = n"
    using set_mask_select[OF e] shape3_rows[OF assms(1)] by auto
  have lg: "\<forall>v\<in>set (mask_select ?m gt). length v = n"
    using set_mask_select[OF shape3_expand[OF assms(2), of P]] shape3_rows[OF assms(2)] by auto
  show ?thesis
    by (simp add: regression_loss_def 1 2 3 view_rows_concat[OF lp assms(3)]
        view_rows_concat[OF lg assms(3)] masked_loss_eq_divisor[OF assms(1,2)])
qed

lemma smooth_l1_loss_sum_Nil: "smooth_l1_loss_sum [] [] = 0"
  by (simp add: smooth_l1_loss_sum_def)

lemma regression_loss_none:
  assumes "\<forall>l\<in>set (concat labels). \<not> P l"
    and "regression_loss (map (map P) labels) pred gt n = Inr v"
  shows "v = 0"
proof -
  let ?m = "map (map P) labels"
  have n: "0 < n"
  proof (rule ccontr)
    assume "\<not> 0 < n"
    then have "view_rows n xs = Inl RuntimeError" for xs :: "real list"
      by (simp add: view_rows_def)
    then show False
      using assms(2)
      by (auto simp: regression_loss_def bind_err_def split: sum.splits)
  qed
  from assms(2) obtain rows where rows: "expand_rows ?m pred = Inr rows"
    by (auto simp: regression_loss_def expand_as_def bind_err_def split: sum.splits)
  have e: "expand_as ?m pred = Inr (expand_mask rows pred)"
    by (simp add: expand_as_def rows)
  have f: "\<forall>m\<in>set rows. \<forall>b\<in>set m. \<not> b"
  proof (intro ballI)
    fix m b assume "m \<in> set rows" "b \<in> set m"
    with expand_rows_set[OF rows] obtain m' where "m' \<in> set ?m" "b \<in> set m'" by blast
    then obtain ls l where "ls \<in> set labels" "l \<in> set ls" "b = P l" by auto
    with assms(1) show "\<not> b" by auto
  qed
  have bi: "bool_index t (expand_mask rows pred) = Inr [] \<or> (\<exists>e. bool_index t (expand_mask rows pred) = Inl e)"
    for t :: "real list list list"
    by (simp add: bool_index_def expand_select_none[OF f])
  have v0: "view_rows n ([] :: real list) = Inr []" using n by (simp add: view_rows_def)
  show ?thesis
    using assms(2) bi[of pred] bi[of gt]
    by (auto simp: regression_loss_def e v0 smooth_l1_loss_sum_Nil)
qed

lemma MultiBoxLoss_forward_unfold:
  assumes "match_atss (cfg self) targets anchor_boxes (variance self) = (labels, boxes, ldmks)"
  shows "MultiBoxLoss_forward srt match_atss self (pl, pb, pld) anchor_boxes targets =
    bind_err (regression_loss (map (map (\<lambda>l. 0 < l)) labels) pld ldmks 10) (\<lambda>landmark_loss.
    bind_err (regression_loss (map (map (\<lambda>l. l \<noteq> 0)) labels) pb boxes 4) (\<lambda>box_loss.
    bind_err
      (if cls_loss_type self = ''OHEM'' then OHEM_forward srt (ohem self) pl (relabel labels)
       else if cls_loss_type self = ''FocalLoss''
         then bind_err (one_hot (concat (relabel labels))) (\<lambda>tgt.
              bind_err (view_rows (num_classes self) (concat (concat pl))) (\<lambda>input.
                if list_all2 (\<lambda>p t. length p = length t) input tgt
                then FocalLoss_forward (focal_loss self) (concat input) (concat tgt)
                else Inl ValueError))
       else Inl UnboundLocalError)
      (\<lambda>c. Inr (c, box_loss, landmark_loss))))"
  by (auto simp: MultiBoxLoss_forward_def assms Let_def bind_err_def
      split: sum.splits option.splits)

lemma shape3_example:
  "shape3 [[l0, l1]] n [[replicate n x, replicate n y]]"
  by (simp add: shape3_def less_Suc_eq nth_Cons')

lemma example_boxes_shape:
  "shape3 [[l0, l1]] 4 [[[a0, a1, a2, a3], [b0, b1, b2, b3]]]"
  by (simp add: shape3_def less_Suc_eq nth_Cons')

lemma example_logits_shape:
  "shape3 [[l0, l1]] 2 [[[a0, a1], [b0, b1]]]"
  by (simp add: shape3_def less_Suc_eq nth_Cons')

lemma example_forward_mixed:
  "MultiBoxLoss_forward argsort_desc (example_matcher [[1, - 1]] [[[0, 0, 0, 0], [0, 0, 0, 0]]])
        (MultiBoxLoss_init (example_cfg ''OHEM'')) example_predictions [] []
      = Inr (ln 2, 1 / 4, 0)"
  by (simp add: MultiBoxLoss_eval_defs OHEM_eval_defs cross_entropy_elem_zero upt_unfold)

text \<open>
  Claim C4. In \<open>MultiBoxLoss.forward\<close> the landmark loss is the smooth-L1 sum over the
  anchors whose matched label is strictly greater than \<open>0\<close>, divided by
  \<open>max (their number) 1\<close>; the box loss is the smooth-L1 sum over the anchors whose
  matched label is nonzero, label \<open>-1\<close> (a face without usable landmarks) included, divided
  by \<open>max (their number) 1\<close>.
\<close>

theorem MultiBoxLoss_forward_regression_losses:
  assumes "match_atss (cfg self) targets anchor_boxes (variance self)
             = (matched_labels, matched_boxes, matched_landmarks)"
    and "shape3 matched_labels 4 pred_boxes" "shape3 matched_labels 4 matched_boxes"
    and "shape3 matched_labels 10 pred_landmarks" "shape3 matched_labels 10 matched_landmarks"
    and "MultiBoxLoss_forward srt match_atss self (pred_logits, pred_boxes, pred_landmarks)
           anchor_boxes targets = Inr (cls_loss, box_loss, landmark_loss)"
  shows "landmark_loss = masked_smooth_l1 (\<lambda>l. 0 < l) matched_labels pred_landmarks matched_landmarks
       \<and> box_loss = masked_smooth_l1 (\<lambda>l. l \<noteq> 0) matched_labels pred_boxes matched_boxes"
proof -
  note u = MultiBoxLoss_forward_unfold[where match_atss = match_atss and self = self
      and srt = srt and pl = pred_logits and pb = pred_boxes and pld = pred_landmarks, OF assms(1)]
  have l: "regression_loss (map (map (\<lambda>l. 0 < l)) matched_labels) pred_landmarks matched_landmarks 10
             = Inr (masked_smooth_l1 (\<lambda>l. 0 < l) matched_labels pred_landmarks matched_landmarks)"
    by (rule regression_loss_value[OF assms(4,5)]) simp
  have b: "regression_loss (map (map (\<lambda>l. l \<noteq> 0)) matched_labels) pred_boxes matched_boxes 4
             = Inr (masked_smooth_l1 (\<lambda>l. l \<noteq> 0) matched_labels pred_boxes matched_boxes)"
    by (rule regression_loss_value[OF assms(2,3)]) simp
  from assms(6) show ?thesis
    unfolding u l b by (auto simp: bind_err_def split: sum.splits)
qed

theorem MultiBoxLoss_forward_regression_losses_witness:
  "MultiBoxLoss_forward argsort_desc (example_matcher [[1, - 1]] [[[0, 0, 0, 0], [0, 0, 0, 0]]])
        (MultiBoxLoss_init (example_cfg ''OHEM'')) example_predictions [] []
      = Inr (ln 2, 1 / 4, 0)
   \<and> 0 = masked_smooth_l1 (\<lambda>l. 0 < l) [[1, - 1]]
         [[replicate 10 0, replicate 10 0]] [[replicate 10 0, replicate 10 0]]
   \<and> 1 / 4 = masked_smooth_l1 (\<lambda>l. l \<noteq> 0) [[1, - 1]]
         [[[1, 0, 0, 0], [0, 0, 0, 0]]] [[[0, 0, 0, 0], [0, 0, 0, 0]]]"
proof -
  have m: "example_matcher [[1, - 1]] [[[0, 0, 0, 0], [0, 0, 0, 0]]]
             (cfg (MultiBoxLoss_init (example_cfg ''OHEM''))) [] []
             (variance (MultiBoxLoss_init (example_cfg ''OHEM'')))
           = ([[1, - 1]], [[[0, 0, 0, 0], [0, 0, 0, 0]]], [[replicate 10 0, replicate 10 0]])"
    by (simp add: example_matcher_def)
  have f: "MultiBoxLoss_forward argsort_desc (example_matcher [[1, - 1]] [[[0, 0, 0, 0], [0, 0, 0, 0]]])
        (MultiBoxLoss_init (example_cfg ''OHEM''))
        ([[[0, 0], [0, 0]]], [[[1, 0, 0, 0], [0, 0, 0, 0]]], [[replicate 10 0, replicate 10 0]]) [] []
      = Inr (ln 2, 1 / 4, 0)"
    using example_forward_mixed by (simp add: example_predictions_def)
  show ?thesis
    using MultiBoxLoss_forward_regression_losses[OF m example_boxes_shape example_boxes_shape
        shape3_example shape3_example f] example_forward_mixed
    by simp
qed

section \<open>MultiBoxLoss: no positive anchor\<close>

lemma relabel_tensor2: "tensor2 B A labels \<Longrightarrow> tensor2 B A (relabel labels)"
  by (auto simp: tensor2_def relabel_def)

lemma relabel_range:
  assumes "2 \<le> C"
  shows "\<forall>t\<in>set (concat (relabel labels)). 0 \<le> t \<and> t < int C"
  using assms by (auto simp: relabel_def)

lemma example_tensor2: "tensor2 1 2 [[l0, l1]]"
  by (simp add: tensor2_def)

lemma example_tensor3_boxes: "tensor3 1 2 4 [[[a0, a1, a2, a3], [b0, b1, b2, b3]]]"
  by (simp add: tensor3_def)

lemma example_tensor3_logits: "tensor3 1 2 2 [[[a0, a1], [b0, b1]]]"
  by (simp add: tensor3_def)

lemma example_tensor3_replicate: "tensor3 1 2 n [[replicate n x, replicate n y]]"
  by (simp add: tensor3_def)

text \<open>
  Claim C5, as the code has it. When no anchor has a positive matched label, both divisors
  are \<open>max count 1\<close>, at least \<open>1\<close> (the landmark divisor is \<open>1\<close>), and a returned
  landmark loss is \<open>0\<close>; a returned box loss is \<open>0\<close> when moreover no anchor has label
  \<open>-1\<close>, that is, when every label is \<open>0\<close>. The function returns when
  \<open>cls_loss_type = 'OHEM'\<close>, the batch is not empty (\<open>B > 0\<close>), the matched labels have shape
  \<open>(B, A)\<close>, the logits shape \<open>(B, A, C)\<close> with \<open>C = num_classes \<ge> 2\<close>, the predicted and
  matched boxes shape \<open>(B, A, 4)\<close>, and the predicted and matched landmarks shape
  \<open>(B, A, 10)\<close>.
\<close>

theorem MultiBoxLoss_forward_no_positive_label:
  assumes "match_atss (cfg self) targets anchor_boxes (variance self)
             = (matched_labels, matched_boxes, matched_landmarks)"
    and "\<forall>l\<in>set (concat matched_labels). l \<le> 0"
  shows "count_divisor (map (map (\<lambda>l. 0 < l)) matched_labels) = 1
    \<and> 1 \<le> count_divisor (map (map (\<lambda>l. l \<noteq> 0)) matched_labels)
    \<and> (\<forall>cls_loss box_loss landmark_loss.
          MultiBoxLoss_forward srt match_atss self (pred_logits, pred_boxes, pred_landmarks)
            anchor_boxes targets = Inr (cls_loss, box_loss, landmark_loss)
          \<longrightarrow> landmark_loss = 0
              \<and> ((\<forall>l\<in>set (concat matched_labels). l = 0) \<longrightarrow> box_loss = 0))
    \<and> (cls_loss_type self = ''OHEM'' \<and> ohem_num_classes (ohem self) = C \<and> 2 \<le> C \<and> 0 < B
         \<and> tensor2 B A matched_labels \<and> tensor3 B A C pred_logits
         \<and> tensor3 B A 4 pred_boxes \<and> tensor3 B A 4 matched_boxes
         \<and> tensor3 B A 10 pred_landmarks \<and> tensor3 B A 10 matched_landmarks
         \<and> (\<forall>b<B.
               is_argsort_desc
                 (loss_c_row (anchor_ce pred_logits (relabel matched_labels) b)
                    (relabel matched_labels ! b))
                 (srt (loss_c_row (anchor_ce pred_logits (relabel matched_labels) b)
                    (relabel matched_labels ! b))))
         \<longrightarrow> (\<exists>cls_loss box_loss.
               MultiBoxLoss_forward srt match_atss self (pred_logits, pred_boxes, pred_landmarks)
                 anchor_boxes targets = Inr (cls_loss, box_loss, 0)))"
proof -
  note u = MultiBoxLoss_forward_unfold[where match_atss = match_atss and self = self
      and srt = srt and pl = pred_logits and pb = pred_boxes and pld = pred_landmarks, OF assms(1)]
  have nopos: "\<forall>l\<in>set (concat matched_labels). \<not> 0 < l" using assms(2) by fastforce
  have "filter (\<lambda>l. 0 < l) (concat matched_labels) = []"
    using nopos by (simp add: filter_empty_conv)
  then have d1: "count_divisor (map (map (\<lambda>l. 0 < l)) matched_labels) = 1"
    by (simp add: count_divisor_filter)
  have d2: "1 \<le> count_divisor (map (map (\<lambda>l. l \<noteq> 0)) matched_labels)"
    by (rule count_divisor_ge_1)
  have ret: "landmark_loss = 0 \<and> ((\<forall>l\<in>set (concat matched_labels). l = 0) \<longrightarrow> box_loss = 0)"
    if r: "MultiBoxLoss_forward srt match_atss self (pred_logits, pred_boxes, pred_landmarks)
            anchor_boxes targets = Inr (cls_loss, box_loss, landmark_loss)"
    for cls_loss box_loss landmark_loss
  proof -
    from r obtain
      l: "regression_loss (map (map (\<lambda>l. 0 < l)) matched_labels) pred_landmarks matched_landmarks 10
            = Inr landmark_loss"
      and b: "regression_loss (map (map (\<lambda>l. l \<noteq> 0)) matched_labels) pred_boxes matched_boxes 4
            = Inr box_loss"
      unfolding u by (auto simp: bind_err_def split: sum.splits)
    have "landmark_loss = 0" by (rule regression_loss_none[OF nopos l])
    moreover have "box_loss = 0" if "\<forall>l\<in>set (concat matched_labels). l = 0"
    proof -
      from that have z: "\<forall>l\<in>set (concat matched_labels). \<not> l \<noteq> 0" by simp
      show ?thesis by (rule regression_loss_none[OF z b])
    qed
    ultimately show ?thesis by simp
  qed
  have ohem: "\<exists>cls_loss box_loss.
               MultiBoxLoss_forward srt match_atss self (pred_logits, pred_boxes, pred_landmarks)
                 anchor_boxes targets = Inr (cls_loss, box_loss, 0)"
    if t: "cls_loss_type self = ''OHEM''" and nc: "ohem_num_classes (ohem self) = C"
      and c: "2 \<le> C" and B: "0 < B"
      and t2: "tensor2 B A matched_labels" and t3: "tensor3 B A C pred_logits"
      and pb: "tensor3 B A 4 pred_boxes" and mb: "tensor3 B A 4 matched_boxes"
      and pl: "tensor3 B A 10 pred_landmarks" and ml: "tensor3 B A 10 matched_landmarks"
      and s: "\<forall>b<B.
               is_argsort_desc
                 (loss_c_row (anchor_ce pred_logits (relabel matched_labels) b)
                    (relabel matched_labels ! b))
                 (srt (loss_c_row (anchor_ce pred_logits (relabel matched_labels) b)
                    (relabel matched_labels ! b)))"
  proof -
    have c0: "0 < C" using c by simp
    from OHEM_forward_value[where srt = srt, OF t3 relabel_tensor2[OF t2] B c0 nc relabel_range[OF c] s]
    obtain v where v: "OHEM_forward srt (ohem self) pred_logits (relabel matched_labels) = Inr v"
      by blast
    have l: "regression_loss (map (map (\<lambda>l. 0 < l)) matched_labels) pred_landmarks matched_landmarks 10
             = Inr (masked_smooth_l1 (\<lambda>l. 0 < l) matched_labels pred_landmarks matched_landmarks)"
      by (rule regression_loss_value[OF tensor3_shape3[OF t2 pl] tensor3_shape3[OF t2 ml]]) simp
    have b: "regression_loss (map (map (\<lambda>l. l \<noteq> 0)) matched_labels) pred_boxes matched_boxes 4
             = Inr (masked_smooth_l1 (\<lambda>l. l \<noteq> 0) matched_labels pred_boxes matched_boxes)"
      by (rule regression_loss_value[OF tensor3_shape3[OF t2 pb] tensor3_shape3[OF t2 mb]]) simp
    have l0: "masked_smooth_l1 (\<lambda>l. 0 < l) matched_labels pred_landmarks matched_landmarks = 0"
      by (rule regression_loss_none[OF nopos l])
    show ?thesis unfolding u l b l0 by (simp add: t v)
  qed
  show ?thesis using d1 d2 ret ohem by blast
qed

text \<open>
  The claim says that the box loss is \<open>0\<close> whenever no anchor has a positive label. An
  anchor with label \<open>-1\<close> still enters the box loss: with labels \<open>[-1, 0]\<close>, a predicted
  box \<open>[1, 0, 0, 0]\<close> and a matched box \<open>[0, 0, 0, 0]\<close> the box loss is \<open>1 / 2\<close>.
\<close>

theorem MultiBoxLoss_forward_box_loss_nonzero:
  "filter (\<lambda>l. 0 < l) (concat [[- 1, 0 :: int]]) = []
   \<and> MultiBoxLoss_forward argsort_desc (example_matcher [[- 1, 0]] [[[0, 0, 0, 0], [0, 0, 0, 0]]])
        (MultiBoxLoss_init (example_cfg ''OHEM'')) example_predictions [] []
      = Inr (2 * ln 2, 1 / 2, 0)
   \<and> (1 / 2 :: real) \<noteq> 0"
  by (simp add: MultiBoxLoss_eval_defs OHEM_eval_defs cross_entropy_elem_zero upt_unfold)

theorem MultiBoxLoss_forward_no_positive_label_witness:
  "count_divisor (map (map (\<lambda>l. 0 < l)) [[0, 0 :: int]]) = 1
   \<and> (\<exists>cls_loss box_loss.
        MultiBoxLoss_forward argsort_desc (example_matcher [[0, 0]] [[[0, 0, 0, 0], [0, 0, 0, 0]]])
          (MultiBoxLoss_init (example_cfg ''OHEM'')) example_predictions [] []
        = Inr (cls_loss, box_loss, 0) \<and> box_loss = 0)"
proof -
  let ?m = "example_matcher [[0, 0]] [[[0, 0, 0, 0], [0, 0, 0, 0]]]"
  let ?self = "MultiBoxLoss_init (example_cfg ''OHEM'')"
  have m: "?m (cfg ?self) [] [] (variance ?self)
           = ([[0, 0]], [[[0, 0, 0, 0], [0, 0, 0, 0]]], [[replicate 10 0, replicate 10 0]])"
    by (simp add: example_matcher_def)
  have z: "\<forall>l\<in>set (concat [[0, 0 :: int]]). l \<le> 0" by simp
  have z': "\<forall>l\<in>set (concat [[0, 0 :: int]]). l = 0" by simp
  have t: "cls_loss_type ?self = ''OHEM''" by (simp add: MultiBoxLoss_init_def example_cfg_def)
  have nc: "ohem_num_classes (ohem ?self) = 2"
    by (simp add: MultiBoxLoss_init_def example_cfg_def OHEM_init_def)
  have s: "\<forall>b<(1::nat).
               is_argsort_desc
                 (loss_c_row (anchor_ce [[[0, 0], [0, 0]]] (relabel [[0, 0]]) b) (relabel [[0, 0]] ! b))
                 (argsort_desc (loss_c_row (anchor_ce [[[0, 0], [0, 0]]] (relabel [[0, 0]]) b)
                    (relabel [[0, 0]] ! b)))"
    by (simp add: is_argsort_desc_argsort_desc)
  note th = MultiBoxLoss_forward_no_positive_label[where match_atss = ?m and self = ?self
      and srt = argsort_desc and pred_logits = "[[[0, 0], [0, 0]]]"
      and pred_boxes = "[[[1, 0, 0, 0], [0, 0, 0, 0]]]"
      and pred_landmarks = "[[replicate 10 0, replicate 10 0]]" and C = 2 and B = 1 and A = 2,
      OF m z]
  from th t nc s example_tensor2[of 0 0] example_tensor3_logits[of 0 0 0 0]
    example_tensor3_boxes[of 1 0 0 0 0 0 0 0] example_tensor3_boxes[of 0 0 0 0 0 0 0 0]
    example_tensor3_replicate[of 10 0 0]
  obtain c b where r: "MultiBoxLoss_forward argsort_desc ?m ?self
      ([[[0, 0], [0, 0]]], [[[1, 0, 0, 0], [0, 0, 0, 0]]], [[replicate 10 0, replicate 10 0]]) [] []
      = Inr (c, b, 0)"
    by auto
  with th z' have "b = 0" by blast
  with r th show ?thesis by (auto simp: example_predictions_def)
qed

text \<open>
  With \<open>cls_loss_type = 'FocalLoss'\<close> and every label \<open>0\<close>, \<open>F.one_hot\<close> infers a single
  class, the target has one column against the two of the logits, and the cross-entropy
  rejects the sizes.
\<close>

lemma MultiBoxLoss_forward_focal_all_background:
  "MultiBoxLoss_forward argsort_desc (example_matcher [[0, 0]] [[[0, 0, 0, 0], [0, 0, 0, 0]]])
        (MultiBoxLoss_init (example_cfg ''FocalLoss'')) example_predictions [] []
      = Inl ValueError"
  by (simp add: MultiBoxLoss_eval_defs OHEM_eval_defs one_hot_def FocalLoss_forward_def
      FocalLoss_default_def FocalLoss_init_def binary_cross_entropy_with_logits_def upt_unfold)

text \<open>
  Matched labels for three anchors against predictions for two: \<open>expand_as\<close> raises before
  any loss is computed.
\<close>

lemma MultiBoxLoss_forward_mismatched_boxes:
  "MultiBoxLoss_forward argsort_desc (example_matcher [[1, 0, 0]] [[[0, 0, 0, 0], [0, 0, 0, 0]]])
        (MultiBoxLoss_init (example_cfg ''OHEM'')) example_predictions [] []
      = Inl RuntimeError"
  by (simp add: MultiBoxLoss_eval_defs OHEM_eval_defs upt_unfold)

section \<open>MultiBoxLoss: the classification loss variable\<close>

text \<open>
  The regression losses come first: with matched labels for three anchors against
  predictions for two, \<open>expand_as\<close> raises before the \<open>return\<close> is reached, whatever
  \<open>cls_loss_type\<close> is.
\<close>

lemma MultiBoxLoss_forward_mismatched_boxes_first:
  "MultiBoxLoss_forward argsort_desc (example_matcher [[1, 0, 0]] [[[0, 0, 0, 0], [0, 0, 0, 0]]])
        (MultiBoxLoss_init (example_cfg ''CrossEntropy'')) example_predictions [] []
      = Inl RuntimeError"
  by (simp add: MultiBoxLoss_eval_defs OHEM_eval_defs upt_unfold)

text \<open>
  Claim C10. \<open>MultiBoxLoss.forward\<close> returns normally only when \<open>cls_loss_type\<close> is
  \<open>'OHEM'\<close> or \<open>'FocalLoss'\<close>. For every other value it raises: the variable
  \<open>cls_loss\<close> is never assigned, and on tensors of the shapes of the docstring, where the
  regression losses raise nothing, the error is the \<open>UnboundLocalError\<close> of reading it at
  the \<open>return\<close>.
\<close>

theorem MultiBoxLoss_forward_cls_loss_unassigned:
  "(cls_loss_type self \<notin> {''OHEM'', ''FocalLoss''} \<longrightarrow>
      (\<exists>e. MultiBoxLoss_forward srt match_atss self (pred_logits, pred_boxes, pred_landmarks)
              anchor_boxes targets = Inl e))
   \<and> (cls_loss_type self \<notin> {''OHEM'', ''FocalLoss''}
        \<and> match_atss (cfg self) targets anchor_boxes (variance self)
             = (matched_labels, matched_boxes, matched_landmarks)
        \<and> shape3 matched_labels 4 pred_boxes \<and> shape3 matched_labels 4 matched_boxes
        \<and> shape3 matched_labels 10 pred_landmarks \<and> shape3 matched_labels 10 matched_landmarks
      \<longrightarrow> MultiBoxLoss_forward srt match_atss self (pred_logits, pred_boxes, pred_landmarks)
              anchor_boxes targets = Inl UnboundLocalError)
   \<and> (\<forall>r. MultiBoxLoss_forward srt match_atss self (pred_logits, pred_boxes, pred_landmarks)
              anchor_boxes targets = Inr r \<longrightarrow>
        cls_loss_type self \<in> {''OHEM'', ''FocalLoss''})"
proof -
  let ?f = "MultiBoxLoss_forward srt match_atss self (pred_logits, pred_boxes, pred_landmarks)
              anchor_boxes targets"
  obtain labels boxes ldmks where
    m: "match_atss (cfg self) targets anchor_boxes (variance self) = (labels, boxes, ldmks)"
    by (cases "match_atss (cfg self) targets anchor_boxes (variance self)") auto
  note u = MultiBoxLoss_forward_unfold[where match_atss = match_atss and self = self
      and srt = srt and pl = pred_logits and pb = pred_boxes and pld = pred_landmarks, OF m]
  have a: "\<exists>e. ?f = Inl e" if "cls_loss_type self \<notin> {''OHEM'', ''FocalLoss''}"
    using that unfolding u by (auto simp: bind_err_def split: sum.splits)
  have b: "?f = Inl UnboundLocalError"
    if t: "cls_loss_type self \<notin> {''OHEM'', ''FocalLoss''}"
      and m': "match_atss (cfg self) targets anchor_boxes (variance self)
             = (matched_labels, matched_boxes, matched_landmarks)"
      and s: "shape3 matched_labels 4 pred_boxes" "shape3 matched_labels 4 matched_boxes"
        "shape3 matched_labels 10 pred_landmarks" "shape3 matched_labels 10 matched_landmarks"
  proof -
    note u' = MultiBoxLoss_forward_unfold[where match_atss = match_atss and self = self
      and srt = srt and pl = pred_logits and pb = pred_boxes and pld = pred_landmarks, OF m']
    have l: "regression_loss (map (map (\<lambda>l. 0 < l)) matched_labels) pred_landmarks matched_landmarks 10
             = Inr (masked_smooth_l1 (\<lambda>l. 0 < l) matched_labels pred_landmarks matched_landmarks)"
      by (rule regression_loss_value[OF s(3,4)]) simp
    have bx: "regression_loss (map (map (\<lambda>l. l \<noteq> 0)) matched_labels) pred_boxes matched_boxes 4
             = Inr (masked_smooth_l1 (\<lambda>l. l \<noteq> 0) matched_labels pred_boxes matched_boxes)"
      by (rule regression_loss_value[OF s(1,2)]) simp
    show ?thesis using t unfolding u' l bx by simp
  qed
  have c: "cls_loss_type self \<in> {''OHEM'', ''FocalLoss''}" if "?f = Inr r" for r
    using a that by fastforce
  show ?thesis using a b c by blast
qed

theorem MultiBoxLoss_forward_cls_loss_unassigned_witness:
  "cls_loss_type (MultiBoxLoss_init (example_cfg ''CrossEntropy'')) \<notin> {''OHEM'', ''FocalLoss''}
   \<and> MultiBoxLoss_forward argsort_desc (example_matcher [[1, 0]] [[[0, 0, 0, 0], [0, 0, 0, 0]]])
        (MultiBoxLoss_init (example_cfg ''CrossEntropy'')) example_predictions [] []
      = Inl UnboundLocalError
   \<and> MultiBoxLoss_forward argsort_desc (example_matcher [[1, 0]] [[[0, 0, 0, 0], [0, 0, 0, 0]]])
        (MultiBoxLoss_init (example_cfg ''OHEM'')) example_predictions [] []
      = Inr (2 * ln 2, 1 / 2, 0)
   \<and> cls_loss_type (MultiBoxLoss_init (example_cfg ''OHEM'')) \<in> {''OHEM'', ''FocalLoss''}"
proof -
  let ?m = "example_matcher [[1, 0]] [[[0, 0, 0, 0], [0, 0, 0, 0]]]"
  let ?ce = "MultiBoxLoss_init (example_cfg ''CrossEntropy'')"
  have e: "MultiBoxLoss_forward argsort_desc ?m
        (MultiBoxLoss_init (example_cfg ''OHEM''))
        ([[[0, 0], [0, 0]]], [[[1, 0, 0, 0], [0, 0, 0, 0]]], [[replicate 10 0, replicate 10 0]]) [] []
      = Inr (2 * ln 2, 1 / 2, 0)"
    by (simp add: MultiBoxLoss_eval_defs OHEM_eval_defs cross_entropy_elem_zero upt_unfold)
  have t: "cls_loss_type ?ce \<notin> {''OHEM'', ''FocalLoss''}"
    by (simp add: MultiBoxLoss_init_def example_cfg_def)
  have m: "?m (cfg ?ce) [] [] (variance ?ce)
           = ([[1, 0]], [[[0, 0, 0, 0], [0, 0, 0, 0]]], [[replicate 10 0, replicate 10 0]])"
    by (simp add: example_matcher_def)
  note th1 = MultiBoxLoss_forward_cls_loss_unassigned
        [where self = ?ce and srt = argsort_desc and match_atss = ?m
           and pred_logits = "[[[0, 0], [0, 0]]]" and pred_boxes = "[[[1, 0, 0, 0], [0, 0, 0, 0]]]"
           and pred_landmarks = "[[replicate 10 0, replicate 10 0]]"
           and anchor_boxes = "[]" and targets = "[]"
           and matched_labels = "[[1, 0]]" and matched_boxes = "[[[0, 0, 0, 0], [0, 0, 0, 0]]]"
           and matched_landmarks = "[[replicate 10 0, replicate 10 0]]"]
  note th2 = MultiBoxLoss_forward_cls_loss_unassigned
        [where self = "MultiBoxLoss_init (example_cfg ''OHEM'')" and srt = argsort_desc
           and match_atss = ?m
           and pred_logits = "[[[0, 0], [0, 0]]]" and pred_boxes = "[[[1, 0, 0, 0], [0, 0, 0, 0]]]"
           and pred_landmarks = "[[replicate 10 0, replicate 10 0]]"
           and anchor_boxes = "[]" and targets = "[]"]
  have u: "MultiBoxLoss_forward argsort_desc ?m ?ce
        ([[[0, 0], [0, 0]]], [[[1, 0, 0, 0], [0, 0, 0, 0]]], [[replicate 10 0, replicate 10 0]]) [] []
      = Inl UnboundLocalError"
    using th1 t m example_boxes_shape[of 1 0 1 0 0 0 0 0 0 0]
      example_boxes_shape[of 1 0 0 0 0 0 0 0 0 0] shape3_example[of 1 0 10 0 0]
    by blast
  have o: "cls_loss_type (MultiBoxLoss_init (example_cfg ''OHEM'')) \<in> {''OHEM'', ''FocalLoss''}"
    using th2 e by blast
  show ?thesis using t u o e by (simp add: example_predictions_def)
qed

end
